theory Spec2Isabelle
  imports Main "HOL-Library.Product_Lexorder"
begin

section \<open>Editor values: positions, ranges, documents\<close>

text \<open>
  A \<^verbatim>\<open>vscode.Position\<close> is a zero-based line and character; the editor's constructor
  refuses negative numbers, so both are naturals. A \<^verbatim>\<open>vscode.Range\<close> is a start and
  an end position; its constructor swaps the two when the start lies after the end.
\<close>

record position =
  line :: nat
  character :: nat

record Range =
  start :: position
  endp :: position

definition isBefore :: "position \<Rightarrow> position \<Rightarrow> bool" where
  "isBefore a b \<longleftrightarrow> line a < line b \<or> (line a = line b \<and> character a < character b)"

definition isBeforeOrEqual :: "position \<Rightarrow> position \<Rightarrow> bool" where
  "isBeforeOrEqual a b \<longleftrightarrow> line a < line b \<or> (line a = line b \<and> character a \<le> character b)"

definition Position :: "nat \<Rightarrow> nat \<Rightarrow> position" where
  "Position l c = \<lparr>line = l, character = c\<rparr>"

text \<open>\<^verbatim>\<open>new vscode.Range(startLine, startChar, endLine, endChar)\<close>.\<close>

definition mkRange :: "nat \<Rightarrow> nat \<Rightarrow> nat \<Rightarrow> nat \<Rightarrow> Range" where
  "mkRange sl sc el ec =
     (if isBefore (Position el ec) (Position sl sc)
      then \<lparr>start = Position el ec, endp = Position sl sc\<rparr>
      else \<lparr>start = Position sl sc, endp = Position el ec\<rparr>)"

definition valid_range :: "Range \<Rightarrow> bool" where
  "valid_range r \<longleftrightarrow> isBeforeOrEqual (start r) (endp r)"

text \<open>\<^verbatim>\<open>range.contains(position)\<close> and \<^verbatim>\<open>range.contains(otherRange)\<close>.\<close>

definition containsPos :: "Range \<Rightarrow> position \<Rightarrow> bool" where
  "containsPos r p \<longleftrightarrow> \<not> isBefore p (start r) \<and> \<not> isBefore (endp r) p"

definition containsRange :: "Range \<Rightarrow> Range \<Rightarrow> bool" where
  "containsRange r q \<longleftrightarrow> containsPos r (start q) \<and> containsPos r (endp q)"

text \<open>The pair of a position, ordered by line and then by character.\<close>

definition pos_pair :: "position \<Rightarrow> nat \<times> nat" where
  "pos_pair p = (line p, character p)"

section \<open>ScopeTracker: the outline and its descent\<close>

datatype SymbolKind =
    File | Module | Namespace | Package | Class | Method | Property | Field
  | Constructor | Enum | Interface | Function | Variable | Constant | String
  | Number | Boolean | Array | Object | Key | Null | EnumMember | Struct
  | Event | Operator | TypeParameter

datatype DocumentSymbol =
  DocumentSymbol (name: string) (kind: SymbolKind) (range: Range) (children: "DocumentSymbol list")

datatype ScopeKind = KFunction | KMethod | KClass | KModule | KUnknown

record EditScope =
  scopeName :: string
  scopeKind :: ScopeKind
  className :: "string option"
  scopeRange :: Range
  symbolKind :: SymbolKind

definition isRelevantSymbol :: "DocumentSymbol \<Rightarrow> bool" where
  "isRelevantSymbol symbol \<longleftrightarrow>
     kind symbol \<in> set [Function, Method, Class, Constructor, Module, Namespace, Interface, Struct]"

definition isClassLike :: "DocumentSymbol \<Rightarrow> bool" where
  "isClassLike symbol \<longleftrightarrow> kind symbol \<in> set [Class, Struct, Interface]"

fun mapSymbolKind :: "SymbolKind \<Rightarrow> ScopeKind" where
  "mapSymbolKind Function = KFunction"
| "mapSymbolKind Method = KMethod"
| "mapSymbolKind Constructor = KMethod"
| "mapSymbolKind Class = KClass"
| "mapSymbolKind Struct = KClass"
| "mapSymbolKind Interface = KClass"
| "mapSymbolKind Module = KModule"
| "mapSymbolKind Namespace = KModule"
| "mapSymbolKind _ = KUnknown"

text \<open>
  \<^verbatim>\<open>findEnclosingSymbolForRange\<close>: the loop over \<^verbatim>\<open>symbols\<close> is the recursion on
  the list, the call on \<^verbatim>\<open>symbol.children\<close> the nested recursion.
\<close>

fun findEnclosingSymbolForRange :: "DocumentSymbol list \<Rightarrow> Range \<Rightarrow> DocumentSymbol option" where
  "findEnclosingSymbolForRange [] r = None"
| "findEnclosingSymbolForRange (DocumentSymbol n k rg cs # rest) r =
     (if containsRange rg r then
        (case (if cs \<noteq> [] then findEnclosingSymbolForRange cs r else None) of
           Some childMatch \<Rightarrow> Some childMatch
         | None \<Rightarrow>
             if isRelevantSymbol (DocumentSymbol n k rg cs) then Some (DocumentSymbol n k rg cs)
             else findEnclosingSymbolForRange rest r)
      else findEnclosingSymbolForRange rest r)"

text \<open>
  \<^verbatim>\<open>findParentClassName\<close>: a class-like symbol containing the method's range is
  returned before its children are looked at; a nested result counts only when it is a
  non-empty string (\<^verbatim>\<open>if (nested)\<close>).
\<close>

fun findParentClassName :: "DocumentSymbol \<Rightarrow> DocumentSymbol list \<Rightarrow> string option" where
  "findParentClassName method [] = None"
| "findParentClassName method (DocumentSymbol n k rg cs # rest) =
     (if isClassLike (DocumentSymbol n k rg cs) \<and> containsRange rg (range method) then Some n
      else
        (case (if cs \<noteq> [] then findParentClassName method cs else None) of
           Some nested \<Rightarrow> if nested \<noteq> [] then Some nested else findParentClassName method rest
         | None \<Rightarrow> findParentClassName method rest))"

definition symbolToEditScope :: "DocumentSymbol \<Rightarrow> DocumentSymbol list \<Rightarrow> EditScope" where
  "symbolToEditScope symbol allSymbols =
     \<lparr>scopeName = name symbol,
      scopeKind = mapSymbolKind (kind symbol),
      className = (if mapSymbolKind (kind symbol) = KMethod
                   then findParentClassName symbol allSymbols else None),
      scopeRange = range symbol,
      symbolKind = kind symbol\<rparr>"


section \<open>Errors and documents\<close>

text \<open>
  Exceptions are values. \<open>IllegalLine\<close> is the error the editor's
  \<^verbatim>\<open>TextDocument.lineAt\<close> raises for a line number outside \<open>[0, lineCount)\<close>;
  \<open>TypeError\<close> is JavaScript's error for a method call on \<^verbatim>\<open>undefined\<close>;
  \<open>Thrown\<close> is any other thrown value.
\<close>

datatype error = IllegalLine | TypeError | Thrown string

datatype EndOfLine = LF | CRLF

record document =
  uri :: string
  languageId :: string
  docVersion :: int
  eol :: EndOfLine
  lines :: "string list"

fun eolText :: "EndOfLine \<Rightarrow> string" where
  "eolText LF = [CHR 0x0A]"
| "eolText CRLF = [CHR 0x0D, CHR 0x0A]"

definition lineAt :: "document \<Rightarrow> nat \<Rightarrow> error + string" where
  "lineAt doc l = (if l < length (lines doc) then Inr (lines doc ! l) else Inl IllegalLine)"

text \<open>
  \<^verbatim>\<open>document.getText(range)\<close> adjusts the range to the document first: a line past
  the last line becomes the end of the last line, a character past the end of its line
  becomes the end of that line.
\<close>

definition validatePosition :: "document \<Rightarrow> position \<Rightarrow> position" where
  "validatePosition doc p =
     (if lines doc = [] then Position 0 0
      else if line p \<ge> length (lines doc)
        then Position (length (lines doc) - 1) (length (last (lines doc)))
      else if character p > length (lines doc ! line p)
        then Position (line p) (length (lines doc ! line p))
      else p)"

definition validateRange :: "document \<Rightarrow> Range \<Rightarrow> Range" where
  "validateRange doc r = \<lparr>start = validatePosition doc (start r), endp = validatePosition doc (endp r)\<rparr>"

definition substring :: "string \<Rightarrow> nat \<Rightarrow> nat \<Rightarrow> string" where
  "substring s a b = take (b - a) (drop a s)"

fun joinWith :: "string \<Rightarrow> string list \<Rightarrow> string" where
  "joinWith sep [] = []"
| "joinWith sep [x] = x"
| "joinWith sep (x # y # ys) = x @ sep @ joinWith sep (y # ys)"

definition getText :: "document \<Rightarrow> Range \<Rightarrow> string" where
  "getText doc r0 =
     (let r = validateRange doc r0; s = start r; e = endp r in
      if s = e then []
      else if line s = line e then substring (lines doc ! line s) (character s) (character e)
      else joinWith (eolText (eol doc))
             ([drop (character s) (lines doc ! line s)]
              @ take (line e - line s - 1) (drop (Suc (line s)) (lines doc))
              @ [take (character e) (lines doc ! line e)]))"

definition getFullText :: "document \<Rightarrow> string" where
  "getFullText doc = joinWith (eolText (eol doc)) (lines doc)"

section \<open>ChangeFilter\<close>

record FilterConfig =
  ignoreComments :: bool
  ignoreWhitespace :: bool
  ignoreFormatting :: bool

definition DEFAULT_CONFIG :: FilterConfig where
  "DEFAULT_CONFIG = \<lparr>ignoreComments = True, ignoreWhitespace = True, ignoreFormatting = True\<rparr>"

datatype ChangeType = Code | Comment | Whitespace | Formatting | Mixed

record ChangeClassification =
  isSignificant :: bool
  changeType :: ChangeType
  affectedRange :: Range

record ContentChange =
  changeRange :: Range
  rangeOffset :: nat
  rangeLength :: nat
  changeText :: string

subsection \<open>Strings and the comment patterns\<close>

text \<open>
  The whitespace of the class \<^verbatim>\<open>\s\<close> and of \<^verbatim>\<open>String.trim\<close>, within the 8-bit
  characters of the model (the code points U+0000 to U+00FF): space, tab, line feed,
  vertical tab, form feed, carriage return and the no-break space U+00A0.
\<close>

definition isSpace :: "char \<Rightarrow> bool" where
  "isSpace c \<longleftrightarrow>
     c \<in> set [CHR 0x20, CHR 0x09, CHR 0x0A, CHR 0x0B, CHR 0x0C, CHR 0x0D, CHR 0xA0]"

definition trim :: "string \<Rightarrow> string" where
  "trim s = rev (dropWhile isSpace (rev (dropWhile isSpace s)))"

text \<open>Removing every run of whitespace: \<^verbatim>\<open>s.replace(/\s+/g, '')\<close>.\<close>

definition stripSpace :: "string \<Rightarrow> string" where
  "stripSpace s = filter (\<lambda>c. \<not> isSpace c) s"

text \<open>
  A regular expression is the function \<^verbatim>\<open>search\<close> computes: the index of the first
  match, if there is one. \<^verbatim>\<open>test\<close> asks whether there is a match.
\<close>

type_synonym regex = "string \<Rightarrow> nat option"

definition test :: "regex \<Rightarrow> string \<Rightarrow> bool" where
  "test re s \<longleftrightarrow> re s \<noteq> None"

definition startsWith :: "string \<Rightarrow> string \<Rightarrow> bool" where
  "startsWith p s \<longleftrightarrow> take (length p) s = p"

fun searchFrom :: "(string \<Rightarrow> bool) \<Rightarrow> nat \<Rightarrow> string \<Rightarrow> nat option" where
  "searchFrom P i [] = (if P [] then Some i else None)"
| "searchFrom P i (c # cs) = (if P (c # cs) then Some i else searchFrom P (Suc i) cs)"

definition anchored :: "(string \<Rightarrow> bool) \<Rightarrow> regex" where
  "anchored P s = (if P s then Some 0 else None)"

definition unanchored :: "(string \<Rightarrow> bool) \<Rightarrow> regex" where
  "unanchored P s = searchFrom P 0 s"

record patterns =
  lineRe :: regex
  blockStartRe :: regex
  blockEndRe :: regex

text \<open>
  The patterns of go, javascript, typescript, java, rust, c and cpp: a line that starts,
  after optional whitespace, with two slashes; a slash and a star anywhere; a star and a
  slash anywhere.
\<close>

definition slashPatterns :: patterns where
  "slashPatterns =
     \<lparr>lineRe = anchored (\<lambda>s. startsWith ''//'' (dropWhile isSpace s)),
      blockStartRe = unanchored (startsWith ''/*''),
      blockEndRe = unanchored (startsWith ''*/'')\<rparr>"

definition tripleDouble :: string where
  "tripleDouble = [CHR 0x22, CHR 0x22, CHR 0x22]"

definition tripleSingle :: string where
  "tripleSingle = [CHR 0x27, CHR 0x27, CHR 0x27]"

text \<open>
  The patterns of python: a line that starts, after optional whitespace, with a hash; a
  text that starts, after optional whitespace, with a triple quote; a triple quote
  followed by nothing but whitespace up to the end of the text.
\<close>

definition pythonPatterns :: patterns where
  "pythonPatterns =
     \<lparr>lineRe = anchored (\<lambda>s. startsWith ''#'' (dropWhile isSpace s)),
      blockStartRe = anchored (\<lambda>s. startsWith tripleDouble (dropWhile isSpace s)
                                     \<or> startsWith tripleSingle (dropWhile isSpace s)),
      blockEndRe = unanchored (\<lambda>s. (startsWith tripleDouble s \<or> startsWith tripleSingle s)
                                     \<and> list_all isSpace (drop 3 s))\<rparr>"

text \<open>
  \<^verbatim>\<open>COMMENT_PATTERNS[languageId]\<close> on the object literal: one of the eight own keys
  gives its patterns; a property name inherited from \<^verbatim>\<open>Object.prototype\<close> gives a
  truthy value that has no \<^verbatim>\<open>line\<close>, \<^verbatim>\<open>blockStart\<close> or \<^verbatim>\<open>blockEnd\<close>; any other
  key gives \<^verbatim>\<open>undefined\<close>.
\<close>

datatype lookup = Undefined | Inherited | Patterns patterns

definition COMMENT_PATTERNS :: "string \<Rightarrow> lookup" where
  "COMMENT_PATTERNS lang =
     (if lang \<in> set [''go'', ''javascript'', ''typescript'', ''java'', ''rust'', ''c'', ''cpp'']
        then Patterns slashPatterns
      else if lang = ''python'' then Patterns pythonPatterns
      else if lang \<in> set [''constructor'', ''hasOwnProperty'', ''isPrototypeOf'',
                ''propertyIsEnumerable'', ''toLocaleString'', ''toString'', ''valueOf'',
                ''__proto__'', ''__defineGetter__'', ''__defineSetter__'',
                ''__lookupGetter__'', ''__lookupSetter__'']
        then Inherited
      else Undefined)"

subsection \<open>Classifying one change\<close>

text \<open>
  \<^verbatim>\<open>getOldText\<close> reads the given (post-change) document at the change's range;
  \<^verbatim>\<open>getText\<close> does not throw, so the \<^verbatim>\<open>catch\<close> branch is never taken.
\<close>

definition getOldText :: "document \<Rightarrow> Range \<Rightarrow> nat \<Rightarrow> string" where
  "getOldText doc r rl = getText doc r"

definition isWhitespaceOnly :: "string \<Rightarrow> string \<Rightarrow> bool" where
  "isWhitespaceOnly oldText newText =
     (let oldTrimmed = trim oldText; newTrimmed = trim newText in
      if oldTrimmed = [] \<and> newTrimmed = [] then True
      else if oldTrimmed = [] \<or> newTrimmed = [] then oldTrimmed = [] \<and> newTrimmed = []
      else False)"

definition isFormattingOnly :: "string \<Rightarrow> string \<Rightarrow> bool" where
  "isFormattingOnly oldText newText \<longleftrightarrow>
     stripSpace oldText = stripSpace newText \<and> oldText \<noteq> newText"

text \<open>
  The backward loop of \<^verbatim>\<open>isInComment\<close>, from line \<open>i\<close> down to line 0. It runs only
  after \<^verbatim>\<open>lineAt(range.start.line)\<close> has succeeded, so every line it reads exists.
  \<open>blockAt\<close> is one round of the loop: \<open>Some b\<close> when the round returns \<open>b\<close>.
\<close>

definition blockAt :: "patterns \<Rightarrow> string list \<Rightarrow> nat \<Rightarrow> nat \<Rightarrow> bool option" where
  "blockAt p ls startLine i =
     (let lineText = ls ! i in
      if i < startLine \<and> test (blockEndRe p) lineText then Some False
      else if test (blockStartRe p) lineText
              \<and> \<not> test (blockEndRe p) (drop (the (blockStartRe p lineText)) lineText)
        then Some (\<not> list_ex (\<lambda>j. test (blockEndRe p) (ls ! j)) [Suc i ..< Suc startLine])
      else None)"

fun scanBack :: "patterns \<Rightarrow> string list \<Rightarrow> nat \<Rightarrow> nat \<Rightarrow> bool" where
  "scanBack p ls startLine 0 =
     (case blockAt p ls startLine 0 of Some b \<Rightarrow> b | None \<Rightarrow> False)"
| "scanBack p ls startLine (Suc i) =
     (case blockAt p ls startLine (Suc i) of Some b \<Rightarrow> b | None \<Rightarrow> scanBack p ls startLine i)"

definition isInComment :: "document \<Rightarrow> Range \<Rightarrow> error + bool" where
  "isInComment doc r =
     (case COMMENT_PATTERNS (languageId doc) of
        Undefined \<Rightarrow> Inr False
      | Inherited \<Rightarrow>
          (case lineAt doc (line (start r)) of Inl e \<Rightarrow> Inl e | Inr lineText \<Rightarrow> Inl TypeError)
      | Patterns p \<Rightarrow>
          (case lineAt doc (line (start r)) of
             Inl e \<Rightarrow> Inl e
           | Inr lineText \<Rightarrow>
               if test (lineRe p) lineText then Inr True
               else Inr (scanBack p (lines doc) (line (start r)) (line (start r)))))"

definition isCommentText :: "string \<Rightarrow> string \<Rightarrow> error + bool" where
  "isCommentText lang txt =
     (case COMMENT_PATTERNS lang of
        Undefined \<Rightarrow> Inr False
      | Inherited \<Rightarrow> (if trim txt = [] then Inr False else Inl TypeError)
      | Patterns p \<Rightarrow>
          (let trimmed = trim txt in
           if trimmed = [] then Inr False
           else if test (lineRe p) trimmed then Inr True
           else if test (blockStartRe p) trimmed \<and> test (blockEndRe p) trimmed then Inr True
           else Inr False))"

definition classifySingleChange :: "document \<Rightarrow> ContentChange \<Rightarrow> error + ChangeType" where
  "classifySingleChange doc change =
     (let newText = changeText change;
          r = changeRange change;
          oldText = getOldText doc r (rangeLength change) in
      if isWhitespaceOnly oldText newText then Inr Whitespace
      else if isFormattingOnly oldText newText then Inr Formatting
      else (case isInComment doc r of
              Inl e \<Rightarrow> Inl e
            | Inr True \<Rightarrow> Inr Comment
            | Inr False \<Rightarrow>
                (case isCommentText (languageId doc) newText of
                   Inl e \<Rightarrow> Inl e
                 | Inr True \<Rightarrow> Inr Comment
                 | Inr False \<Rightarrow> Inr Code)))"

subsection \<open>Combining the changes\<close>

text \<open>The loop of the filter's own \<^verbatim>\<open>getCombinedRange\<close>, on the four running numbers.\<close>

definition extendRange :: "nat \<times> nat \<times> nat \<times> nat \<Rightarrow> ContentChange \<Rightarrow> nat \<times> nat \<times> nat \<times> nat" where
  "extendRange acc change =
     (case acc of (startLine, startChar, endLine, endChar) \<Rightarrow>
        (let s = start (changeRange change); e = endp (changeRange change) in
         (if line s < startLine \<or> (line s = startLine \<and> character s < startChar)
            then line s else startLine,
          if line s < startLine \<or> (line s = startLine \<and> character s < startChar)
            then character s else startChar,
          if line e > endLine \<or> (line e = endLine \<and> character e > endChar)
            then line e else endLine,
          if line e > endLine \<or> (line e = endLine \<and> character e > endChar)
            then character e else endChar)))"

fun filterCombinedRange :: "ContentChange list \<Rightarrow> Range" where
  "filterCombinedRange [] = mkRange 0 0 0 0"
| "filterCombinedRange (c0 # cs) =
     (case fold (\<lambda>c acc. extendRange acc c) (c0 # cs)
             (line (start (changeRange c0)), character (start (changeRange c0)),
              line (endp (changeRange c0)), character (endp (changeRange c0))) of
        (startLine, startChar, endLine, endChar) \<Rightarrow> mkRange startLine startChar endLine endChar)"

text \<open>
  The overall verdict from the per-change classifications: the cascade on
  \<^verbatim>\<open>hasCode\<close>, \<^verbatim>\<open>hasComment\<close>, \<^verbatim>\<open>hasWhitespace\<close> and \<^verbatim>\<open>hasFormatting\<close> in
  \<^verbatim>\<open>classify\<close>. The pair is \<^verbatim>\<open>isSignificant\<close> and \<^verbatim>\<open>changeType\<close>.
\<close>

definition overall :: "FilterConfig \<Rightarrow> ChangeType list \<Rightarrow> bool \<times> ChangeType" where
  "overall config classifications =
     (let hasCode = list_ex (\<lambda>c. c = Code) classifications;
          hasComment = list_ex (\<lambda>c. c = Comment) classifications;
          hasWhitespace = list_ex (\<lambda>c. c = Whitespace) classifications;
          hasFormatting = list_ex (\<lambda>c. c = Formatting) classifications in
      if hasCode then (True, if hasComment \<or> hasWhitespace then Mixed else Code)
      else if hasComment \<and> \<not> hasWhitespace \<and> \<not> hasFormatting
        then (\<not> ignoreComments config, Comment)
      else if hasWhitespace \<and> \<not> hasComment \<and> \<not> hasFormatting
        then (\<not> ignoreWhitespace config, Whitespace)
      else if hasFormatting then (\<not> ignoreFormatting config, Formatting)
      else (True, Mixed))"

text \<open>Mapping \<^verbatim>\<open>classifySingleChange\<close> over the changes: the first exception ends the map.\<close>

fun classifyEach :: "document \<Rightarrow> ContentChange list \<Rightarrow> error + ChangeType list" where
  "classifyEach doc [] = Inr []"
| "classifyEach doc (c # cs) =
     (case classifySingleChange doc c of
        Inl e \<Rightarrow> Inl e
      | Inr t \<Rightarrow> (case classifyEach doc cs of Inl e \<Rightarrow> Inl e | Inr ts \<Rightarrow> Inr (t # ts)))"

definition classify :: "FilterConfig \<Rightarrow> document \<Rightarrow> ContentChange list \<Rightarrow> error + ChangeClassification" where
  "classify config doc changes =
     (if changes = [] then
        Inr \<lparr>isSignificant = False, changeType = Whitespace, affectedRange = mkRange 0 0 0 0\<rparr>
      else
        (case classifyEach doc changes of
           Inl e \<Rightarrow> Inl e
         | Inr classifications \<Rightarrow>
             Inr \<lparr>isSignificant = fst (overall config classifications),
                  changeType = snd (overall config classifications),
                  affectedRange = filterCombinedRange changes\<rparr>))"


section \<open>LRUCache\<close>

text \<open>
  A JavaScript \<^verbatim>\<open>Map\<close> iterates in insertion order, and the cache relies on it: the
  map is the list of its entries, oldest insertion first, with no key twice.
  \<^verbatim>\<open>Map.set\<close> on a key already there keeps its place; on a new key it appends.
\<close>

definition map_has :: "('k \<times> 'v) list \<Rightarrow> 'k \<Rightarrow> bool" where
  "map_has m k \<longleftrightarrow> k \<in> set (map fst m)"

definition map_get :: "('k \<times> 'v) list \<Rightarrow> 'k \<Rightarrow> 'v option" where
  "map_get m k = map_of m k"

definition map_delete :: "('k \<times> 'v) list \<Rightarrow> 'k \<Rightarrow> ('k \<times> 'v) list" where
  "map_delete m k = filter (\<lambda>e. fst e \<noteq> k) m"

definition map_set :: "('k \<times> 'v) list \<Rightarrow> 'k \<Rightarrow> 'v \<Rightarrow> ('k \<times> 'v) list" where
  "map_set m k v =
     (if map_has m k then map (\<lambda>e. if fst e = k then (k, v) else e) m else m @ [(k, v)])"

text \<open>\<^verbatim>\<open>map.keys().next().value\<close>: the first key, \<^verbatim>\<open>undefined\<close> on an empty map.\<close>

definition firstKey :: "('k \<times> 'v) list \<Rightarrow> 'k option" where
  "firstKey m = (case m of [] \<Rightarrow> None | e # _ \<Rightarrow> Some (fst e))"

record ('k, 'v) LRUCache =
  cache :: "('k \<times> 'v) list"
  maxSize :: nat

definition newLRUCache :: "nat \<Rightarrow> ('k, 'v) LRUCache" where
  "newLRUCache n = \<lparr>cache = [], maxSize = n\<rparr>"

definition lru_get :: "('k, 'v) LRUCache \<Rightarrow> 'k \<Rightarrow> 'v option \<times> ('k, 'v) LRUCache" where
  "lru_get c key =
     (case map_get (cache c) key of
        None \<Rightarrow> (None, c)
      | Some v \<Rightarrow> (Some v, c\<lparr>cache := map_set (map_delete (cache c) key) key v\<rparr>))"

definition lru_set :: "('k, 'v) LRUCache \<Rightarrow> 'k \<Rightarrow> 'v \<Rightarrow> ('k, 'v) LRUCache" where
  "lru_set c key v =
     (let m = (if map_has (cache c) key then map_delete (cache c) key
               else if length (cache c) \<ge> maxSize c then
                 (case firstKey (cache c) of
                    Some fk \<Rightarrow> map_delete (cache c) fk
                  | None \<Rightarrow> cache c)
               else cache c)
      in c\<lparr>cache := map_set m key v\<rparr>)"

definition lru_has :: "('k, 'v) LRUCache \<Rightarrow> 'k \<Rightarrow> bool" where
  "lru_has c key = map_has (cache c) key"

definition lru_delete :: "('k, 'v) LRUCache \<Rightarrow> 'k \<Rightarrow> ('k, 'v) LRUCache" where
  "lru_delete c key = c\<lparr>cache := map_delete (cache c) key\<rparr>"

definition lru_clear :: "('k, 'v) LRUCache \<Rightarrow> ('k, 'v) LRUCache" where
  "lru_clear c = c\<lparr>cache := []\<rparr>"

definition lru_size :: "('k, 'v) LRUCache \<Rightarrow> nat" where
  "lru_size c = length (cache c)"

definition keysOf :: "('k, 'v) LRUCache \<Rightarrow> 'k list" where
  "keysOf c = map fst (cache c)"

text \<open>A sequence of cache operations, run from left to right.\<close>

datatype ('k, 'v) cacheOp = Get 'k | Set 'k 'v

fun opKey :: "('k, 'v) cacheOp \<Rightarrow> 'k" where
  "opKey (Get k) = k"
| "opKey (Set k v) = k"

fun applyOp :: "('k, 'v) LRUCache \<Rightarrow> ('k, 'v) cacheOp \<Rightarrow> ('k, 'v) LRUCache" where
  "applyOp c (Get k) = snd (lru_get c k)"
| "applyOp c (Set k v) = lru_set c k v"

definition runOps :: "('k, 'v) LRUCache \<Rightarrow> ('k, 'v) cacheOp list \<Rightarrow> ('k, 'v) LRUCache" where
  "runOps c ops = foldl applyOp c ops"

text \<open>
  Recency as the specification words it: a key is touched by every \<^verbatim>\<open>get\<close> and
  \<^verbatim>\<open>set\<close> on it. \<open>lastTouch ops k\<close> is the position (from 1) of the last operation
  of \<open>ops\<close> on \<open>k\<close>, and 0 when there is none; \<open>newestFirst\<close> takes the operations
  latest first.
\<close>

fun newestFirst :: "('k, 'v) cacheOp list \<Rightarrow> 'k \<Rightarrow> nat" where
  "newestFirst [] k = 0"
| "newestFirst (x # older) k = (if opKey x = k then Suc (length older) else newestFirst older k)"

definition lastTouch :: "('k, 'v) cacheOp list \<Rightarrow> 'k \<Rightarrow> nat" where
  "lastTouch ops k = newestFirst (rev ops) k"

section \<open>ScopeTracker: fetching the outline\<close>

record OutlineCacheEntry =
  symbols :: "DocumentSymbol list"
  cachedVersion :: int

type_synonym ScopeTracker = "(string, OutlineCacheEntry) LRUCache"

text \<open>
  The outline provider is the editor's: its answer to the one call
  \<^verbatim>\<open>getDocumentSymbols\<close> may make is a parameter, \<open>Inl\<close> a rejection, \<open>Inr None\<close>
  the answer \<^verbatim>\<open>undefined\<close>.
\<close>

type_synonym providerAnswer = "error + DocumentSymbol list option"

definition getDocumentSymbols ::
  "ScopeTracker \<Rightarrow> document \<Rightarrow> providerAnswer \<Rightarrow> DocumentSymbol list option \<times> ScopeTracker" where
  "getDocumentSymbols tracker doc answer =
     (case lru_get tracker (uri doc) of (cached, tracker1) \<Rightarrow>
        (case (case cached of Some e \<Rightarrow> if cachedVersion e = docVersion doc then Some (symbols e) else None
                            | None \<Rightarrow> None) of
           Some syms \<Rightarrow> (Some syms, tracker1)
         | None \<Rightarrow>
             (case answer of
                Inl e \<Rightarrow> (None, tracker1)
              | Inr None \<Rightarrow> (None, tracker1)
              | Inr (Some syms) \<Rightarrow>
                  (Some syms,
                   lru_set tracker1 (uri doc) \<lparr>symbols = syms, cachedVersion = docVersion doc\<rparr>))))"

definition getEnclosingScopeForRange ::
  "ScopeTracker \<Rightarrow> document \<Rightarrow> Range \<Rightarrow> providerAnswer \<Rightarrow> EditScope option \<times> ScopeTracker" where
  "getEnclosingScopeForRange tracker doc r answer =
     (case getDocumentSymbols tracker doc answer of (syms, tracker1) \<Rightarrow>
        (case syms of
           None \<Rightarrow> (None, tracker1)
         | Some [] \<Rightarrow> (None, tracker1)
         | Some ss \<Rightarrow>
             (case findEnclosingSymbolForRange ss r of
                None \<Rightarrow> (None, tracker1)
              | Some enclosing \<Rightarrow> (Some (symbolToEditScope enclosing ss), tracker1))))"

text \<open>All the nodes of an outline, each before its descendants.\<close>

fun allSymbols :: "DocumentSymbol list \<Rightarrow> DocumentSymbol list" where
  "allSymbols [] = []"
| "allSymbols (DocumentSymbol n k rg cs # rest) =
     DocumentSymbol n k rg cs # allSymbols cs @ allSymbols rest"

text \<open>
  The descent as the specification words it: a node whose range does not contain the
  query gives nothing; otherwise its children are tried first, and the node itself is
  the answer only when no child matches and its kind is relevant. A list of nodes is
  tried in order.
\<close>

fun specDescend :: "DocumentSymbol list \<Rightarrow> Range \<Rightarrow> DocumentSymbol option" where
  "specDescend [] q = None"
| "specDescend (DocumentSymbol n k rg cs # rest) q =
     (let here =
        (if \<not> containsRange rg q then None
         else (case specDescend cs q of
                 Some m \<Rightarrow> Some m
               | None \<Rightarrow>
                   if k \<in> {Function, Method, Class, Constructor, Module, Namespace, Interface, Struct}
                   then Some (DocumentSymbol n k rg cs) else None))
      in case here of Some m \<Rightarrow> Some m | None \<Rightarrow> specDescend rest q)"

section \<open>EditBuffer\<close>

record BufferedEdit =
  changes :: "ContentChange list"
  timestamp :: int
  version :: int

record BufferEntry =
  entryDocument :: document
  edits :: "BufferedEdit list"

text \<open>
  The buffer and the pending timers, keyed by URI; a timer is the time at which it is
  due. \<open>console\<close> is what \<^verbatim>\<open>console.error\<close> has printed: a message and the error.
\<close>

record EditBuffer =
  buffer :: "string \<rightharpoonup> BufferEntry"
  timers :: "string \<rightharpoonup> int"
  idleMs :: int
  console :: "(string \<times> error) list"

definition newEditBuffer :: "int \<Rightarrow> EditBuffer" where
  "newEditBuffer ms = \<lparr>buffer = Map.empty, timers = Map.empty, idleMs = ms, console = []\<rparr>"

text \<open>
  The idle callback is the consumer's code: it is given the URI, the document and the
  edits, runs on the buffer as it is when it is called, and either returns or throws,
  leaving the buffer as it has made it.
\<close>

type_synonym IdleCallback =
  "string \<Rightarrow> document \<Rightarrow> BufferedEdit list \<Rightarrow> EditBuffer \<Rightarrow> error option \<times> EditBuffer"

definition cancelTimer :: "EditBuffer \<Rightarrow> string \<Rightarrow> EditBuffer" where
  "cancelTimer eb u = (case timers eb u of Some t \<Rightarrow> eb\<lparr>timers := (timers eb)(u := None)\<rparr> | None \<Rightarrow> eb)"

definition resetTimer :: "EditBuffer \<Rightarrow> string \<Rightarrow> int \<Rightarrow> EditBuffer" where
  "resetTimer eb u now =
     (let eb1 = cancelTimer eb u in eb1\<lparr>timers := (timers eb1)(u \<mapsto> now + idleMs eb1)\<rparr>)"

definition addEdit :: "EditBuffer \<Rightarrow> document \<Rightarrow> ContentChange list \<Rightarrow> int \<Rightarrow> EditBuffer" where
  "addEdit eb doc chs now =
     (let u = uri doc;
          entry = (case buffer eb u of Some e \<Rightarrow> e | None \<Rightarrow> \<lparr>entryDocument = doc, edits = []\<rparr>);
          entry1 = entry\<lparr>entryDocument := doc,
                         edits := edits entry @ [\<lparr>changes = chs, timestamp = now, version = docVersion doc\<rparr>]\<rparr>
      in resetTimer (eb\<lparr>buffer := (buffer eb)(u \<mapsto> entry1)\<rparr>) u now)"

definition flush :: "EditBuffer \<Rightarrow> string \<Rightarrow> BufferEntry option \<times> EditBuffer" where
  "flush eb u =
     (let eb1 = cancelTimer eb u in (buffer eb1 u, eb1\<lparr>buffer := (buffer eb1)(u := None)\<rparr>))"

definition hasBufferedEdits :: "EditBuffer \<Rightarrow> string \<Rightarrow> bool" where
  "hasBufferedEdits eb u = (case buffer eb u of Some e \<Rightarrow> edits e \<noteq> [] | None \<Rightarrow> False)"

definition getBufferedEditCount :: "EditBuffer \<Rightarrow> string \<Rightarrow> nat" where
  "getBufferedEditCount eb u = (case buffer eb u of Some e \<Rightarrow> length (edits e) | None \<Rightarrow> 0)"

text \<open>
  \<^verbatim>\<open>onTimerFired\<close>. The first component of the result is the exception that leaves the
  function, if any.
\<close>

definition onTimerFired :: "IdleCallback option \<Rightarrow> EditBuffer \<Rightarrow> string \<Rightarrow> error option \<times> EditBuffer" where
  "onTimerFired idleCallback eb u =
     (case buffer eb u of
        None \<Rightarrow> (None, eb)
      | Some entry \<Rightarrow>
          if edits entry = [] then (None, eb)
          else
            (let eb1 = eb\<lparr>buffer := (buffer eb)(u := None)\<rparr> in
             case idleCallback of
               None \<Rightarrow> (None, eb1)
             | Some cb \<Rightarrow>
                 (case cb u (entryDocument entry) (edits entry) eb1 of
                    (None, eb2) \<Rightarrow> (None, eb2)
                  | (Some err, eb2) \<Rightarrow>
                      (None, eb2\<lparr>console := console eb2 @ [(''[EditBuffer] Idle callback error:'', err)]\<rparr>))))"

text \<open>The function \<^verbatim>\<open>resetTimer\<close> hands to \<^verbatim>\<open>setTimeout\<close>, run when the timer is due.\<close>

definition timerElapsed :: "IdleCallback option \<Rightarrow> EditBuffer \<Rightarrow> string \<Rightarrow> error option \<times> EditBuffer" where
  "timerElapsed idleCallback eb u =
     (case onTimerFired idleCallback (eb\<lparr>timers := (timers eb)(u := None)\<rparr>) u of
        (None, eb1) \<Rightarrow> (None, eb1)
      | (Some err, eb1) \<Rightarrow>
          (None, eb1\<lparr>console := console eb1 @ [(''[EditBuffer] Timer callback error:'', err)]\<rparr>))"

text \<open>The changes of all the edits, in the order the two nested loops visit them.\<close>

definition allChanges :: "BufferedEdit list \<Rightarrow> ContentChange list" where
  "allChanges es = concat (map changes es)"

text \<open>
  \<^verbatim>\<open>EditBuffer.getCombinedRange\<close>: the two nested loops run over the changes of all
  edits in order, from the sentinel start \<^verbatim>\<open>Number.MAX_SAFE_INTEGER\<close> and the end 0.
\<close>

definition MAX_SAFE_INTEGER :: nat where
  "MAX_SAFE_INTEGER = 9007199254740991"

definition getCombinedRange :: "BufferedEdit list \<Rightarrow> Range" where
  "getCombinedRange es =
     (if es = [] then mkRange 0 0 0 0
      else
        (case fold (\<lambda>c acc. extendRange acc c) (allChanges es)
                (MAX_SAFE_INTEGER, MAX_SAFE_INTEGER, 0, 0) of
           (startLine, startChar, endLine, endChar) \<Rightarrow>
             if startLine = MAX_SAFE_INTEGER then mkRange 0 0 0 0
             else mkRange startLine startChar endLine endChar))"

section \<open>SmartDiagnostics\<close>

record Stats =
  totalChanges :: nat
  filteredOut :: nat
  sentToLsp :: nat

record LanguageClient =
  isRunning :: bool

datatype LogLine =
    ClientNotRunning
  | FailedToGetScope error
  | SendingToLsp nat "string option" "ScopeKind option"
  | DriftCheckFailed error

record DriftRequest =
  reqUri :: string
  reqContent :: string
  reqVersion :: int
  reqScope :: "EditScope option"
  reqAffectedRange :: Range

text \<open>
  The orchestrator's state. \<open>warnings\<close> lists the times at which
  \<^verbatim>\<open>showWarningMessage\<close> was called, \<open>requests\<close> the drift-check requests sent,
  \<open>outputChannel\<close> the lines appended to the channel when one is set.
\<close>

record SmartDiagnostics =
  stats :: Stats
  consecutiveFailures :: nat
  lastNotificationTime :: int
  client :: "LanguageClient option"
  scopeTracker :: ScopeTracker
  outputChannel :: "LogLine list option"
  warnings :: "int list"
  requests :: "DriftRequest list"

definition FAILURE_THRESHOLD :: nat where
  "FAILURE_THRESHOLD = 3"

definition NOTIFICATION_COOLDOWN_MS :: int where
  "NOTIFICATION_COOLDOWN_MS = 60000"

definition DEFAULT_SYMBOL_CACHE_SIZE :: nat where
  "DEFAULT_SYMBOL_CACHE_SIZE = 50"

definition newSmartDiagnostics :: SmartDiagnostics where
  "newSmartDiagnostics =
     \<lparr>stats = \<lparr>totalChanges = 0, filteredOut = 0, sentToLsp = 0\<rparr>,
      consecutiveFailures = 0, lastNotificationTime = 0, client = None,
      scopeTracker = newLRUCache DEFAULT_SYMBOL_CACHE_SIZE, outputChannel = None,
      warnings = [], requests = []\<rparr>"

definition log :: "SmartDiagnostics \<Rightarrow> LogLine \<Rightarrow> SmartDiagnostics" where
  "log sd l = (case outputChannel sd of
                 Some ls \<Rightarrow> sd\<lparr>outputChannel := Some (ls @ [l])\<rparr>
               | None \<Rightarrow> sd)"

definition handleLspFailure :: "SmartDiagnostics \<Rightarrow> int \<Rightarrow> SmartDiagnostics" where
  "handleLspFailure sd now =
     (let sd1 = sd\<lparr>consecutiveFailures := consecutiveFailures sd + 1\<rparr> in
      if consecutiveFailures sd1 \<ge> FAILURE_THRESHOLD then
        (let sd2 = (if now - lastNotificationTime sd1 > NOTIFICATION_COOLDOWN_MS
                    then sd1\<lparr>lastNotificationTime := now, warnings := warnings sd1 @ [now]\<rparr>
                    else sd1)
         in sd2\<lparr>consecutiveFailures := 0\<rparr>)
      else sd1)"

text \<open>
  \<^verbatim>\<open>sendToLSP\<close>: the request is sent, and the remote service's answer (\<open>Inl\<close> a
  rejection) and the clock at that moment are parameters.
\<close>

definition sendToLSP ::
  "SmartDiagnostics \<Rightarrow> document \<Rightarrow> EditScope option \<Rightarrow> Range \<Rightarrow> error + unit \<Rightarrow> int \<Rightarrow> SmartDiagnostics" where
  "sendToLSP sd doc scope ar answer now =
     (case client sd of
        None \<Rightarrow> sd
      | Some cl \<Rightarrow>
          (let sd1 = sd\<lparr>requests := requests sd @
                          [\<lparr>reqUri = uri doc, reqContent = getFullText doc, reqVersion = docVersion doc,
                            reqScope = scope, reqAffectedRange = ar\<rparr>]\<rparr>
           in case answer of
                Inr ok \<Rightarrow> sd1\<lparr>consecutiveFailures := 0\<rparr>
              | Inl err \<Rightarrow> handleLspFailure (log sd1 (DriftCheckFailed err)) now))"

text \<open>
  \<^verbatim>\<open>processEdits\<close> up to its first \<^verbatim>\<open>await\<close>: either it has returned (\<open>Inl\<close>), or
  it has counted the dispatch and computed the combined range, and scope resolution
  is about to start (\<open>Inr\<close>).
\<close>

definition processEditsBegin ::
  "SmartDiagnostics \<Rightarrow> BufferedEdit list \<Rightarrow> SmartDiagnostics + SmartDiagnostics \<times> Range" where
  "processEditsBegin sd es =
     (if (case client sd of None \<Rightarrow> True | Some cl \<Rightarrow> \<not> isRunning cl)
        then Inl (log sd ClientNotRunning)
      else if es = [] then Inl sd
      else Inr (sd\<lparr>stats := (stats sd)\<lparr>sentToLsp := sentToLsp (stats sd) + 1\<rparr>\<rparr>,
                getCombinedRange es))"

text \<open>
  The whole of \<^verbatim>\<open>processEdits\<close>: scope resolution with the provider's answer, then
  the dispatch with the remote service's answer.
\<close>

definition processEdits ::
  "SmartDiagnostics \<Rightarrow> string \<Rightarrow> document \<Rightarrow> BufferedEdit list \<Rightarrow> providerAnswer
     \<Rightarrow> error + unit \<Rightarrow> int \<Rightarrow> SmartDiagnostics" where
  "processEdits sd u doc es provided answer now =
     (case processEditsBegin sd es of
        Inl done \<Rightarrow> done
      | Inr (sd1, combinedRange) \<Rightarrow>
          (case getEnclosingScopeForRange (scopeTracker sd1) doc combinedRange provided of
             (scope, tracker1) \<Rightarrow>
               (let sd2 = log (sd1\<lparr>scopeTracker := tracker1\<rparr>)
                            (SendingToLsp (length es) (map_option scopeName scope)
                                          (map_option scopeKind scope))
                in sendToLSP sd2 doc scope combinedRange answer now)))"




section \<open>Notions used by the statements\<close>

text \<open>The starts and the ends of all the change ranges of a list of edits, as pairs.\<close>

definition changeStarts :: "BufferedEdit list \<Rightarrow> (nat \<times> nat) list" where
  "changeStarts es = map (\<lambda>c. pos_pair (start (changeRange c))) (allChanges es)"

definition changeEnds :: "BufferedEdit list \<Rightarrow> (nat \<times> nat) list" where
  "changeEnds es = map (\<lambda>c. pos_pair (endp (changeRange c))) (allChanges es)"

text \<open>
  The invariant of the cache after the operations \<open>ops\<close>: it keeps its capacity, holds
  at most that many entries, no key twice, and its keys stand in the order of their
  last touch, the least recently touched first.
\<close>

definition recencyInv :: "nat \<Rightarrow> ('k, 'v) cacheOp list \<Rightarrow> ('k, 'v) LRUCache \<Rightarrow> bool" where
  "recencyInv n ops c \<longleftrightarrow>
     maxSize c = n \<and> length (keysOf c) \<le> n \<and> distinct (keysOf c)
     \<and> sorted_wrt (\<lambda>a b. lastTouch ops a < lastTouch ops b) (keysOf c)"

text \<open>Two idle callbacks: one adds an edit while it runs, one throws at once.\<close>

definition reentrantAdd :: "document \<Rightarrow> ContentChange list \<Rightarrow> int \<Rightarrow> IdleCallback" where
  "reentrantAdd doc chs now = (\<lambda>u d es eb. (None, addEdit eb doc chs now))"

definition throwing :: "error \<Rightarrow> IdleCallback" where
  "throwing err = (\<lambda>u d es eb. (Some err, eb))"

section \<open>Concrete inputs\<close>

text \<open>A class with a method and a field; the method holds a local variable.\<close>

definition exMethod :: DocumentSymbol where
  "exMethod = DocumentSymbol ''greet'' Method (mkRange 2 4 4 5)
                [DocumentSymbol ''msg'' Variable (mkRange 3 8 3 20) []]"

definition exOutline :: "DocumentSymbol list" where
  "exOutline =
     [DocumentSymbol ''Greeter'' Class (mkRange 0 0 10 1)
        [exMethod, DocumentSymbol ''count'' Field (mkRange 6 4 6 20) []],
      DocumentSymbol ''limit'' Constant (mkRange 12 0 12 30) []]"

text \<open>A method inside a class inside a class.\<close>

definition exNested :: "DocumentSymbol list" where
  "exNested =
     [DocumentSymbol ''Outer'' Class (mkRange 0 0 10 1)
        [DocumentSymbol ''Inner'' Class (mkRange 1 0 9 1)
           [DocumentSymbol ''run'' Method (mkRange 2 0 4 1) []]]]"

text \<open>
  A TypeScript document of two lines after an edit that appended a space to the first
  line and typed two spaces on the second, and the two changes of that edit.
\<close>

definition exDoc :: document where
  "exDoc = \<lparr>uri = ''file:///a.ts'', languageId = ''typescript'', docVersion = 1, eol = LF,
            lines = [''ab '', ''  '']\<rparr>"

definition exBatch :: "ContentChange list" where
  "exBatch =
     [\<lparr>changeRange = mkRange 1 0 1 0, rangeOffset = 3, rangeLength = 0, changeText = ''  ''\<rparr>,
      \<lparr>changeRange = mkRange 0 0 0 2, rangeOffset = 0, rangeLength = 2, changeText = ''ab ''\<rparr>]"

definition exConfig :: FilterConfig where
  "exConfig = \<lparr>ignoreComments = True, ignoreWhitespace = False, ignoreFormatting = True\<rparr>"

text \<open>A TypeScript document of one line, and a change that starts on line 5.\<close>

definition exOneLine :: document where
  "exOneLine = \<lparr>uri = ''file:///b.ts'', languageId = ''typescript'', docVersion = 2, eol = LF,
                lines = [''x'']\<rparr>"

definition exBeyond :: "ContentChange list" where
  "exBeyond =
     [\<lparr>changeRange = mkRange 5 0 5 0, rangeOffset = 0, rangeLength = 0, changeText = ''y''\<rparr>]"

text \<open>Buffered edits: two edits, on line 3 and on line 1.\<close>

definition exChangeAt :: "nat \<Rightarrow> nat \<Rightarrow> nat \<Rightarrow> nat \<Rightarrow> ContentChange" where
  "exChangeAt sl sc el ec =
     \<lparr>changeRange = mkRange sl sc el ec, rangeOffset = 0, rangeLength = 0, changeText = ''x''\<rparr>"

definition exEdits :: "BufferedEdit list" where
  "exEdits = [\<lparr>changes = [exChangeAt 3 2 3 7], timestamp = 10, version = 1\<rparr>,
              \<lparr>changes = [exChangeAt 1 4 1 9], timestamp = 20, version = 2\<rparr>]"

text \<open>An edit buffer holding one edit of \<open>exDoc\<close>, its timer pending.\<close>

definition exBuffer :: EditBuffer where
  "exBuffer = addEdit (newEditBuffer 400) exDoc exBatch 1000"

text \<open>
  An orchestrator with a running client; one that has failed twice since it showed a
  warning at time 1700000000000.
\<close>

definition exRunning :: SmartDiagnostics where
  "exRunning = newSmartDiagnostics\<lparr>client := Some \<lparr>isRunning = True\<rparr>\<rparr>"


section \<open>Evaluation rules\<close>

lemmas range_eval = mkRange_def Position_def isBefore_def isBeforeOrEqual_def valid_range_def
  containsRange_def containsPos_def pos_pair_def

lemmas lru_eval = runOps_def newLRUCache_def lru_set_def lru_get_def map_has_def map_get_def
  map_delete_def map_set_def firstKey_def keysOf_def lru_size_def lru_has_def Let_def

lemmas text_eval = getOldText_def getText_def validateRange_def validatePosition_def substring_def
  isWhitespaceOnly_def isFormattingOnly_def trim_def stripSpace_def isSpace_def

section \<open>Positions as pairs\<close>

lemma isBefore_pair: "isBefore a b \<longleftrightarrow> pos_pair a < pos_pair b"
  by (auto simp: isBefore_def pos_pair_def less_prod_def)

lemma isBeforeOrEqual_pair: "isBeforeOrEqual a b \<longleftrightarrow> pos_pair a \<le> pos_pair b"
  by (auto simp: isBeforeOrEqual_def pos_pair_def less_eq_prod_def)

lemma containsPos_pair:
  "containsPos r p \<longleftrightarrow> pos_pair (start r) \<le> pos_pair p \<and> pos_pair p \<le> pos_pair (endp r)"
  by (auto simp: containsPos_def isBefore_pair)

lemma containsRange_pair:
  "containsRange r q \<longleftrightarrow>
     pos_pair (start r) \<le> pos_pair (start q) \<and> pos_pair (start q) \<le> pos_pair (endp r)
     \<and> pos_pair (start r) \<le> pos_pair (endp q) \<and> pos_pair (endp q) \<le> pos_pair (endp r)"
  by (auto simp: containsRange_def containsPos_pair)

lemma pos_pair_Position: "pos_pair (Position l c) = (l, c)"
  by (simp add: pos_pair_def Position_def)

section \<open>The outline descent\<close>

lemma find_eq_spec: "findEnclosingSymbolForRange syms q = specDescend syms q"
  by (induction syms q rule: findEnclosingSymbolForRange.induct)
     (auto simp: isRelevantSymbol_def split: option.splits)

lemma find_Some_props:
  "findEnclosingSymbolForRange syms q = Some s \<Longrightarrow>
     s \<in> set (allSymbols syms) \<and> containsRange (range s) q \<and> isRelevantSymbol s
     \<and> findEnclosingSymbolForRange (children s) q = None"
  by (induction syms q rule: findEnclosingSymbolForRange.induct)
     (auto split: option.splits if_splits)

lemma find_None_if_irrelevant:
  "(\<forall>s \<in> set (allSymbols syms). containsRange (range s) q \<longrightarrow> \<not> isRelevantSymbol s) \<Longrightarrow>
   findEnclosingSymbolForRange syms q = None"
  by (induction syms q rule: findEnclosingSymbolForRange.induct)
     (auto split: option.splits if_splits)

section \<open>The cache as a list of entries\<close>

lemma map_fst_delete: "map fst (map_delete m k) = filter (\<lambda>x. x \<noteq> k) (map fst m)"
  by (induction m) (auto simp: map_delete_def)

lemma map_has_delete: "map_has (map_delete m j) k \<longleftrightarrow> map_has m k \<and> k \<noteq> j"
  by (auto simp: map_has_def map_fst_delete)

lemma map_set_fresh: "\<not> map_has m k \<Longrightarrow> map_set m k v = m @ [(k, v)]"
  by (simp add: map_set_def)

lemma map_get_None: "map_get m k = None \<longleftrightarrow> \<not> map_has m k"
  by (simp add: map_get_def map_has_def map_of_eq_None_iff)

lemma map_of_delete_other: "k' \<noteq> k \<Longrightarrow> map_of (map_delete m k) k' = map_of m k'"
  by (induction m) (auto simp: map_delete_def)

lemma map_of_delete_same: "map_of (map_delete m k) k = None"
  by (induction m) (auto simp: map_delete_def)

lemma cache_get:
  "cache (snd (lru_get c k)) =
     (case map_get (cache c) k of
        None \<Rightarrow> cache c
      | Some v \<Rightarrow> map_delete (cache c) k @ [(k, v)])"
  by (simp add: lru_get_def map_set_fresh map_has_delete split: option.splits)

lemma cache_set:
  "cache (lru_set c k v) =
     (if map_has (cache c) k then map_delete (cache c) k @ [(k, v)]
      else if length (cache c) \<ge> maxSize c then
        (case cache c of [] \<Rightarrow> [(k, v)] | e # _ \<Rightarrow> map_delete (cache c) (fst e) @ [(k, v)])
      else cache c @ [(k, v)])"
  by (simp add: lru_set_def Let_def map_set_fresh map_has_delete firstKey_def split: list.splits)

lemma keysOf_get:
  "keysOf (snd (lru_get c k)) =
     (if k \<in> set (keysOf c) then filter (\<lambda>x. x \<noteq> k) (keysOf c) @ [k] else keysOf c)"
proof (cases "map_get (cache c) k")
  case None
  then show ?thesis
    using map_get_None [of "cache c" k] by (simp add: keysOf_def cache_get map_has_def)
next
  case (Some v)
  then have "k \<in> set (map fst (cache c))"
    using map_get_None [of "cache c" k] by (auto simp: map_has_def)
  with Some show ?thesis
    by (simp add: keysOf_def cache_get map_fst_delete)
qed

lemma keysOf_set:
  "keysOf (lru_set c k v) =
     (if k \<in> set (keysOf c) then filter (\<lambda>x. x \<noteq> k) (keysOf c) @ [k]
      else if length (keysOf c) \<ge> maxSize c then
        (case keysOf c of [] \<Rightarrow> [k] | fk # _ \<Rightarrow> filter (\<lambda>x. x \<noteq> fk) (keysOf c) @ [k])
      else keysOf c @ [k])"
  by (cases "cache c") (simp_all add: keysOf_def cache_set map_has_def map_fst_delete)

lemma maxSize_get: "maxSize (snd (lru_get c k)) = maxSize c"
  by (simp add: lru_get_def split: option.splits)

lemma maxSize_set: "maxSize (lru_set c k v) = maxSize c"
  by (simp add: lru_set_def Let_def)

lemma filter_absent: "k \<notin> set ks \<Longrightarrow> filter (\<lambda>y. y \<noteq> k) ks = ks"
  by (induction ks) auto

lemma filter_hd_distinct: "distinct (x # xs) \<Longrightarrow> filter (\<lambda>y. y \<noteq> x) (x # xs) = xs"
  by (simp add: filter_absent)

lemma length_filter_distinct:
  "distinct ks \<Longrightarrow> k \<in> set ks \<Longrightarrow> Suc (length (filter (\<lambda>y. y \<noteq> k) ks)) = length ks"
  by (induction ks) (auto simp: filter_absent)

lemma length_filter_present:
  "k \<in> set ks \<Longrightarrow> Suc (length (filter (\<lambda>y. y \<noteq> k) ks)) \<le> length ks"
  using length_filter_less [of k ks "\<lambda>y. y \<noteq> k"] by simp

section \<open>Recency\<close>

lemma lastTouch_snoc:
  "lastTouch (ops @ [x]) k = (if opKey x = k then Suc (length ops) else lastTouch ops k)"
  by (simp add: lastTouch_def)

lemma newestFirst_le: "newestFirst xs k \<le> length xs"
  by (induction xs) auto

lemma lastTouch_le: "lastTouch ops k \<le> length ops"
  using newestFirst_le [of "rev ops" k] by (simp add: lastTouch_def)

lemma touch_same:
  assumes "sorted_wrt (\<lambda>a b. lastTouch ops a < lastTouch ops b) ks" "opKey x \<notin> set ks"
  shows "sorted_wrt (\<lambda>a b. lastTouch (ops @ [x]) a < lastTouch (ops @ [x]) b) ks"
proof (rule sorted_wrt_mono_rel [OF _ assms(1)])
  fix a b assume "a \<in> set ks" "b \<in> set ks" "lastTouch ops a < lastTouch ops b"
  with assms(2) show "lastTouch (ops @ [x]) a < lastTouch (ops @ [x]) b"
    by (auto simp: lastTouch_snoc)
qed

lemma touch_append:
  assumes "sorted_wrt (\<lambda>a b. lastTouch ops a < lastTouch ops b) ks" "opKey x \<notin> set ks"
  shows "sorted_wrt (\<lambda>a b. lastTouch (ops @ [x]) a < lastTouch (ops @ [x]) b) (ks @ [opKey x])"
proof -
  have "lastTouch (ops @ [x]) a < lastTouch (ops @ [x]) (opKey x)" if "a \<in> set ks" for a
    using that assms(2) lastTouch_le [of ops a] by (auto simp: lastTouch_snoc)
  with touch_same [OF assms] show ?thesis
    by (simp add: sorted_wrt_append)
qed

lemma touch_move:
  assumes "sorted_wrt (\<lambda>a b. lastTouch ops a < lastTouch ops b) ks"
  shows "sorted_wrt (\<lambda>a b. lastTouch (ops @ [x]) a < lastTouch (ops @ [x]) b)
           (filter (\<lambda>y. y \<noteq> opKey x) ks @ [opKey x])"
proof (rule touch_append)
  show "sorted_wrt (\<lambda>a b. lastTouch ops a < lastTouch ops b) (filter (\<lambda>y. y \<noteq> opKey x) ks)"
    using assms by (rule sorted_wrt_filter)
  show "opKey x \<notin> set (filter (\<lambda>y. y \<noteq> opKey x) ks)" by simp
qed

lemma recencyInv_get:
  assumes "recencyInv n ops c"
  shows "recencyInv n (ops @ [Get k]) (snd (lru_get c k))"
proof (cases "k \<in> set (keysOf c)")
  case True
  with assms touch_move [of ops "keysOf c" "Get k"] length_filter_present [of k "keysOf c"]
  show ?thesis by (simp add: recencyInv_def keysOf_get maxSize_get)
next
  case False
  with assms touch_same [of ops "keysOf c" "Get k"]
  show ?thesis by (simp add: recencyInv_def keysOf_get maxSize_get)
qed

lemma recencyInv_set:
  assumes "recencyInv n ops c" "0 < n"
  shows "recencyInv n (ops @ [Set k v]) (lru_set c k v)"
proof (cases "k \<in> set (keysOf c)")
  case True
  with assms touch_move [of ops "keysOf c" "Set k v"] length_filter_present [of k "keysOf c"]
  show ?thesis by (simp add: recencyInv_def keysOf_set maxSize_set)
next
  case absent: False
  show ?thesis
  proof (cases "length (keysOf c) \<ge> maxSize c")
    case False
    with absent assms touch_append [of ops "keysOf c" "Set k v"]
    show ?thesis by (simp add: recencyInv_def keysOf_set maxSize_set)
  next
    case True
    with assms obtain fk rest where ks: "keysOf c = fk # rest"
      by (cases "keysOf c") (auto simp: recencyInv_def)
    with assms have d: "distinct (fk # rest)" by (simp add: recencyInv_def)
    have r: "filter (\<lambda>x. x \<noteq> fk) (keysOf c) = rest"
      using filter_hd_distinct [OF d] ks by simp
    have "sorted_wrt (\<lambda>a b. lastTouch ops a < lastTouch ops b) rest" "k \<notin> set rest"
      using assms ks absent by (auto simp: recencyInv_def)
    with touch_append [of ops rest "Set k v"] absent assms True ks r d
    show ?thesis by (simp add: recencyInv_def keysOf_set maxSize_set)
  qed
qed

lemma recencyInv_run:
  assumes "0 < n"
  shows "recencyInv n ops (runOps (newLRUCache n) ops)"
proof (induction ops rule: rev_induct)
  case Nil
  show ?case by (simp add: recencyInv_def runOps_def newLRUCache_def keysOf_def)
next
  case (snoc x ops)
  show ?case
  proof (cases x)
    case (Get k)
    with recencyInv_get [OF snoc, of k] show ?thesis by (simp add: runOps_def)
  next
    case (Set k v)
    with recencyInv_set [OF snoc assms, of k v] show ?thesis by (simp add: runOps_def)
  qed
qed

lemma lru_evicts_least_recent:
  assumes inv: "recencyInv n ops c" and pos: "0 < n"
    and absent: "\<not> lru_has c k" and full: "lru_size c = n"
  shows "\<exists>victim rest. keysOf c = victim # rest
           \<and> (\<forall>k' \<in> set rest. lastTouch ops victim < lastTouch ops k')
           \<and> keysOf (lru_set c k v) = rest @ [k]
           \<and> cache (lru_set c k v) = tl (cache c) @ [(k, v)]"
proof -
  from full pos obtain e es where c: "cache c = e # es"
    by (cases "cache c") (auto simp: lru_size_def)
  from inv have d: "distinct (map fst (e # es))"
    and s: "sorted_wrt (\<lambda>a b. lastTouch ops a < lastTouch ops b) (map fst (e # es))"
    and m: "maxSize c = n"
    using c by (simp_all add: recencyInv_def keysOf_def)
  have del: "map_delete (e # es) (fst e) = es"
    using d by (auto simp: map_delete_def filter_id_conv rev_image_eqI)
  have "cache (lru_set c k v) = es @ [(k, v)]"
    using absent full m c del by (simp add: cache_set lru_has_def lru_size_def)
  moreover have "\<forall>k' \<in> set (map fst es). lastTouch ops (fst e) < lastTouch ops k'"
    using s by simp
  ultimately show ?thesis
    using c by (simp add: keysOf_def)
qed

section \<open>The combined range of buffered edits\<close>

lemma extendRange_pairs:
  "extendRange (sl, sc, el, ec) c = (a, b, a', b') \<Longrightarrow>
     (a, b) = min (sl, sc) (pos_pair (start (changeRange c)))
     \<and> (a', b') = max (el, ec) (pos_pair (endp (changeRange c)))"
  by (auto simp: extendRange_def Let_def min_def max_def pos_pair_def less_eq_prod_def
           split: if_splits)

lemma fold_extendRange:
  "fold (\<lambda>c acc. extendRange acc c) cs (sl, sc, el, ec) = (a, b, a', b') \<Longrightarrow>
     (a, b) = fold min (map (\<lambda>c. pos_pair (start (changeRange c))) cs) (sl, sc)
     \<and> (a', b') = fold max (map (\<lambda>c. pos_pair (endp (changeRange c))) cs) (el, ec)"
proof (induction cs arbitrary: sl sc el ec)
  case Nil
  then show ?case by simp
next
  case (Cons c cs)
  obtain p q p' q' where e: "extendRange (sl, sc, el, ec) c = (p, q, p', q')"
    by (cases "extendRange (sl, sc, el, ec) c") auto
  from extendRange_pairs [OF e] Cons.IH [of p q p' q'] Cons.prems e
  show ?case by (simp add: min.commute max.commute)
qed

lemma fold_min_Min: "fold min xs (x::nat \<times> nat) = Min (set (x # xs))"
  using Min.set_eq_fold [of x xs] by simp

lemma fold_max_Max: "fold max xs (x::nat \<times> nat) = Max (set (x # xs))"
  using Max.set_eq_fold [of x xs] by simp

lemma getCombinedRange_pairs:
  assumes valid: "\<forall>c \<in> set (allChanges es). valid_range (changeRange c)"
    and below: "\<exists>c \<in> set (allChanges es). line (start (changeRange c)) < MAX_SAFE_INTEGER"
  shows "pos_pair (start (getCombinedRange es)) = Min (set (changeStarts es))"
    and "pos_pair (endp (getCombinedRange es)) = Max (set (changeEnds es))"
proof -
  let ?S = "changeStarts es" and ?E = "changeEnds es"
  from below obtain c0 where c0: "c0 \<in> set (allChanges es)"
    and lt: "line (start (changeRange c0)) < MAX_SAFE_INTEGER" by blast
  then have ne: "es \<noteq> []" by (auto simp: allChanges_def)
  have Sne: "set ?S \<noteq> {}" and Ene: "set ?E \<noteq> {}"
    using c0 by (auto simp: changeStarts_def changeEnds_def)
  obtain a b a' b' where f:
    "fold (\<lambda>c acc. extendRange acc c) (allChanges es) (MAX_SAFE_INTEGER, MAX_SAFE_INTEGER, 0, 0)
       = (a, b, a', b')"
    by (metis prod_cases4)
  from fold_extendRange [OF f]
  have ab: "(a, b) = Min (insert (MAX_SAFE_INTEGER, MAX_SAFE_INTEGER) (set ?S))"
    and ab': "(a', b') = Max (insert (0, 0) (set ?E))"
    by (simp_all add: fold_min_Min fold_max_Max changeStarts_def changeEnds_def)
  have s0: "pos_pair (start (changeRange c0)) \<in> set ?S"
    using c0 by (auto simp: changeStarts_def)
  have "pos_pair (start (changeRange c0)) < (MAX_SAFE_INTEGER, MAX_SAFE_INTEGER)"
    using lt by (simp add: pos_pair_def less_prod_def)
  then have "Min (set ?S) < (MAX_SAFE_INTEGER, MAX_SAFE_INTEGER)"
    using s0 by (meson List.finite_set Min_le le_less_trans)
  then have "min (MAX_SAFE_INTEGER, MAX_SAFE_INTEGER) (Min (set ?S)) = Min (set ?S)"
    by (intro min_absorb2 less_imp_le)
  then have minS: "(a, b) = Min (set ?S)"
    using ab Min_insert [OF finite_set Sne, of "(MAX_SAFE_INTEGER, MAX_SAFE_INTEGER)"]
    by (simp only:)
  have "(0::nat, 0::nat) \<le> Max (set ?E)"
    by (simp add: less_eq_prod_def)
  then have "max (0, 0) (Max (set ?E)) = Max (set ?E)"
    by (intro max_absorb2)
  then have maxE: "(a', b') = Max (set ?E)"
    using ab' Max_insert [OF finite_set Ene, of "(0, 0)"]
    by (simp only:)
  have a_lt: "a \<noteq> MAX_SAFE_INTEGER"
  proof
    assume "a = MAX_SAFE_INTEGER"
    moreover have "(a, b) \<le> pos_pair (start (changeRange c0))"
      using minS s0 by simp
    ultimately show False using lt by (auto simp: pos_pair_def less_eq_prod_def)
  qed
  have "(a, b) \<le> pos_pair (start (changeRange c0))" using minS s0 by simp
  also have "\<dots> \<le> pos_pair (endp (changeRange c0))"
    using valid c0 by (simp add: valid_range_def isBeforeOrEqual_pair)
  also have "\<dots> \<le> (a', b')"
    using maxE c0 by (auto simp: changeEnds_def)
  finally have le: "(a, b) \<le> (a', b')" .
  then have "\<not> isBefore (Position a' b') (Position a b)"
    by (auto simp: isBefore_pair pos_pair_Position)
  then have r: "getCombinedRange es = \<lparr>start = Position a b, endp = Position a' b'\<rparr>"
    using f ne a_lt by (simp add: getCombinedRange_def mkRange_def)
  show "pos_pair (start (getCombinedRange es)) = Min (set (changeStarts es))"
    using r minS by (simp add: pos_pair_Position)
  show "pos_pair (endp (getCombinedRange es)) = Max (set (changeEnds es))"
    using r maxE by (simp add: pos_pair_Position)
qed

lemma getCombinedRange_covers:
  assumes valid: "\<forall>c \<in> set (allChanges es). valid_range (changeRange c)"
    and below: "\<exists>c \<in> set (allChanges es). line (start (changeRange c)) < MAX_SAFE_INTEGER"
    and c: "c \<in> set (allChanges es)"
  shows "containsRange (getCombinedRange es) (changeRange c)"
proof -
  have s: "Min (set (changeStarts es)) \<le> pos_pair (start (changeRange c))"
    using c by (auto simp: changeStarts_def)
  have e: "pos_pair (endp (changeRange c)) \<le> Max (set (changeEnds es))"
    using c by (auto simp: changeEnds_def)
  have v: "pos_pair (start (changeRange c)) \<le> pos_pair (endp (changeRange c))"
    using valid c by (simp add: valid_range_def isBeforeOrEqual_pair)
  from s e v show ?thesis
    unfolding containsRange_pair getCombinedRange_pairs [OF valid below]
    by (meson order_trans)
qed

lemma getCombinedRange_least:
  assumes valid: "\<forall>c \<in> set (allChanges es). valid_range (changeRange c)"
    and below: "\<exists>c \<in> set (allChanges es). line (start (changeRange c)) < MAX_SAFE_INTEGER"
    and cover: "\<forall>c \<in> set (allChanges es). containsRange r (changeRange c)"
  shows "containsRange r (getCombinedRange es)"
proof -
  let ?S = "set (changeStarts es)" and ?E = "set (changeEnds es)"
  from below have ne: "?S \<noteq> {}" "?E \<noteq> {}"
    by (auto simp: changeStarts_def changeEnds_def)
  have lo: "pos_pair (start r) \<le> x" if "x \<in> ?S \<union> ?E" for x
    using that cover by (auto simp: changeStarts_def changeEnds_def containsRange_pair)
  have hi: "x \<le> pos_pair (endp r)" if "x \<in> ?S \<union> ?E" for x
    using that cover by (auto simp: changeStarts_def changeEnds_def containsRange_pair)
  have "Min ?S \<in> ?S" "Max ?E \<in> ?E"
    using ne by (simp_all del: set_empty)
  with lo [of "Min ?S"] lo [of "Max ?E"] hi [of "Min ?S"] hi [of "Max ?E"]
  show ?thesis
    unfolding containsRange_pair getCombinedRange_pairs [OF valid below] by simp
qed

lemma getCombinedRange_none:
  "allChanges es = [] \<Longrightarrow> getCombinedRange es = mkRange 0 0 0 0"
  by (simp add: getCombinedRange_def)

section \<open>The edit buffer's timer\<close>

lemma onTimerFired_runs_callback_after_removal:
  assumes "buffer eb u = Some entry" "edits entry \<noteq> []"
  shows "onTimerFired (Some cb) eb u =
           (case cb u (entryDocument entry) (edits entry) (eb\<lparr>buffer := (buffer eb)(u := None)\<rparr>) of
              (None, eb2) \<Rightarrow> (None, eb2)
            | (Some err, eb2) \<Rightarrow>
                (None, eb2\<lparr>console := console eb2 @ [(''[EditBuffer] Idle callback error:'', err)]\<rparr>))"
  using assms by (simp add: onTimerFired_def Let_def)

lemma onTimerFired_never_throws: "fst (onTimerFired cb eb u) = None"
  by (simp add: onTimerFired_def Let_def split: option.splits prod.splits)

lemma timerElapsed_never_throws: "fst (timerElapsed cb eb u) = None"
  by (simp add: timerElapsed_def split: option.splits prod.splits)

lemma buffer_addEdit_fresh:
  "buffer eb (uri doc) = None \<Longrightarrow>
     buffer (addEdit eb doc chs now) (uri doc)
       = Some \<lparr>entryDocument = doc,
               edits = [\<lparr>changes = chs, timestamp = now, version = docVersion doc\<rparr>]\<rparr>"
  by (simp add: addEdit_def Let_def resetTimer_def cancelTimer_def split: option.splits)

lemma buffer_addEdit_existing:
  "buffer eb (uri doc) = Some entry \<Longrightarrow>
     buffer (addEdit eb doc chs now) (uri doc)
       = Some \<lparr>entryDocument = doc,
               edits = edits entry @ [\<lparr>changes = chs, timestamp = now, version = docVersion doc\<rparr>]\<rparr>"
  by (simp add: addEdit_def Let_def resetTimer_def cancelTimer_def split: option.splits)

lemma onTimerFired_reentrant:
  assumes "buffer eb u = Some entry" "edits entry \<noteq> []" "uri doc = u"
  shows "buffer (snd (onTimerFired (Some (reentrantAdd doc chs now)) eb u)) u
           = Some \<lparr>entryDocument = doc,
                   edits = [\<lparr>changes = chs, timestamp = now, version = docVersion doc\<rparr>]\<rparr>"
proof -
  let ?eb1 = "eb\<lparr>buffer := (buffer eb)(u := None)\<rparr>"
  have "buffer ?eb1 (uri doc) = None" using assms(3) by simp
  from buffer_addEdit_fresh [OF this, of chs now]
  show ?thesis
    using assms by (simp add: onTimerFired_runs_callback_after_removal reentrantAdd_def)
qed

lemma timerElapsed_not_stuck:
  assumes "buffer eb u = Some entry" "edits entry \<noteq> []"
  shows "\<not> hasBufferedEdits (snd (timerElapsed (Some (throwing err)) eb u)) u"
    and "timers (snd (timerElapsed (Some (throwing err)) eb u)) u = None"
    and "console (snd (timerElapsed (Some (throwing err)) eb u))
           = console eb @ [(''[EditBuffer] Idle callback error:'', err)]"
  using assms
  by (simp_all add: timerElapsed_def onTimerFired_def throwing_def hasBufferedEdits_def Let_def)

section \<open>The orchestrator's counters\<close>

lemma stats_log: "stats (log sd l) = stats sd"
  by (simp add: log_def split: option.splits)

lemma stats_handleLspFailure: "stats (handleLspFailure sd now) = stats sd"
  by (simp add: handleLspFailure_def Let_def)

lemma stats_sendToLSP: "stats (sendToLSP sd doc scope ar answer now) = stats sd"
  by (simp add: sendToLSP_def Let_def stats_handleLspFailure stats_log split: option.splits sum.splits)







lemma processEdits_skipped:
  assumes "client sd = None \<or> (\<exists>cl. client sd = Some cl \<and> \<not> isRunning cl) \<or> es = []"
  shows "stats (processEdits sd u doc es provided answer now) = stats sd"
  using assms
  by (auto simp: processEdits_def processEditsBegin_def log_def split: option.splits)

lemma processEdits_counted:
  assumes "client sd = Some cl" "isRunning cl" "es \<noteq> []"
  shows "processEditsBegin sd es =
           Inr (sd\<lparr>stats := (stats sd)\<lparr>sentToLsp := sentToLsp (stats sd) + 1\<rparr>\<rparr>, getCombinedRange es)"
    and "stats (processEdits sd u doc es provided answer now)
           = (stats sd)\<lparr>sentToLsp := sentToLsp (stats sd) + 1\<rparr>"
  using assms
  by (simp_all add: processEdits_def processEditsBegin_def stats_sendToLSP stats_log split: prod.splits)

lemma requests_log: "requests (log sd l) = requests sd"
  by (simp add: log_def split: option.splits)

lemma client_log: "client (log sd l) = client sd"
  by (simp add: log_def split: option.splits)

lemma requests_handleLspFailure: "requests (handleLspFailure sd now) = requests sd"
  by (simp add: handleLspFailure_def Let_def)

lemma requests_sendToLSP:
  "client sd = Some cl \<Longrightarrow>
     requests (sendToLSP sd doc scope ar answer now)
       = requests sd @ [\<lparr>reqUri = uri doc, reqContent = getFullText doc, reqVersion = docVersion doc,
                         reqScope = scope, reqAffectedRange = ar\<rparr>]"
  by (cases answer)
     (simp_all add: sendToLSP_def Let_def requests_handleLspFailure requests_log)

lemma processEdits_skipped_requests:
  assumes "client sd = None \<or> (\<exists>cl. client sd = Some cl \<and> \<not> isRunning cl) \<or> es = []"
  shows "requests (processEdits sd u doc es provided answer now) = requests sd"
  using assms
  by (auto simp: processEdits_def processEditsBegin_def log_def split: option.splits)

lemma processEdits_dispatches:
  assumes c: "client sd = Some cl" and r: "isRunning cl" and e: "es \<noteq> []"
  shows "requests (processEdits sd u doc es provided answer now)
           = requests sd @
               [\<lparr>reqUri = uri doc, reqContent = getFullText doc, reqVersion = docVersion doc,
                 reqScope = fst (getEnclosingScopeForRange (scopeTracker sd) doc
                                   (getCombinedRange es) provided),
                 reqAffectedRange = getCombinedRange es\<rparr>]"
proof -
  obtain scope tracker1 where
    g: "getEnclosingScopeForRange (scopeTracker sd) doc (getCombinedRange es) provided
          = (scope, tracker1)"
    by (cases "getEnclosingScopeForRange (scopeTracker sd) doc (getCombinedRange es) provided")
  let ?sd2 = "log (sd\<lparr>stats := (stats sd)\<lparr>sentToLsp := sentToLsp (stats sd) + 1\<rparr>,
                      scopeTracker := tracker1\<rparr>)
                (SendingToLsp (length es) (map_option scopeName scope) (map_option scopeKind scope))"
  have p: "processEdits sd u doc es provided answer now
             = sendToLSP ?sd2 doc scope (getCombinedRange es) answer now"
    using c r e g by (simp add: processEdits_def processEditsBegin_def)
  have "client ?sd2 = Some cl" using c by (simp add: client_log)
  from requests_sendToLSP [OF this] show ?thesis
    by (simp add: p g requests_log)
qed

section \<open>ChangeFilter: how the classifications combine (C1)\<close>

text \<open>
  C1 says that, for changes none of which is code, whitespace together with formatting
  gives the type mixed and a significant result. At the edit \<open>exBatch\<close> of the
  document \<open>exDoc\<close> (two spaces typed on an empty line: whitespace; a space appended
  to \<^verbatim>\<open>ab\<close>: formatting), with whitespace changes configured as significant and
  formatting-only changes as ignored, \<^verbatim>\<open>classify\<close> returns the type formatting and
  \<^verbatim>\<open>isSignificant = false\<close>: the branch for formatting lacks the tests for the
  other kinds that the branches for comment and whitespace make.
\<close>

theorem classify_whitespace_with_formatting:
  "classifyEach exDoc exBatch = Inr [Whitespace, Formatting]
   \<and> map_sum id (\<lambda>r. (isSignificant r, changeType r)) (classify exConfig exDoc exBatch)
       = Inr (False, Formatting)
   \<and> overall exConfig [Whitespace] = (True, Whitespace)
   \<and> overall exConfig [Comment, Formatting] = (False, Formatting)
   \<and> overall exConfig [Comment, Whitespace] = (True, Mixed)"
proof -
  have each: "classifyEach exDoc exBatch = Inr [Whitespace, Formatting]"
    by (simp add: exDoc_def exBatch_def classifySingleChange_def text_eval range_eval Let_def)
  have "map_sum id (\<lambda>r. (isSignificant r, changeType r)) (classify exConfig exDoc exBatch)
          = Inr (False, Formatting)"
    by (simp add: classify_def each overall_def exConfig_def) (simp add: exBatch_def)
  with each show ?thesis
    by (simp add: overall_def exConfig_def)
qed

section \<open>SmartDiagnostics: the failure streak and the warning (C2)\<close>




section \<open>ScopeTracker: the class of a method (C3)\<close>

text \<open>
  C3 says that \<^verbatim>\<open>className\<close> is the name of the nearest (innermost) class-like
  ancestor of the method. For the method \<^verbatim>\<open>run\<close> of the class \<^verbatim>\<open>Inner\<close> nested in the
  class \<^verbatim>\<open>Outer\<close>, scope resolution returns the method with the class name
  \<^verbatim>\<open>Outer\<close>: \<^verbatim>\<open>findParentClassName\<close> returns a class-like symbol that contains
  the method's range before it looks at that symbol's children.
\<close>

theorem nested_method_className_is_outermost:
  "map_option (\<lambda>s. (scopeName s, scopeKind s, className s))
     (fst (getEnclosingScopeForRange (newLRUCache 50) exDoc (mkRange 3 0 3 1) (Inr (Some exNested))))
   = Some (''run'', KMethod, Some ''Outer'')"
  by (simp add: getEnclosingScopeForRange_def getDocumentSymbols_def exNested_def exDoc_def
        symbolToEditScope_def isRelevantSymbol_def isClassLike_def lru_eval range_eval)

section \<open>LRUCache: capacity and eviction (C4)\<close>

text \<open>
  C4, for a capacity that is a whole number of entries and at least 1. After every
  sequence of \<^verbatim>\<open>get\<close> and \<^verbatim>\<open>set\<close> operations on a new cache of such a capacity
  \<open>n\<close>, the cache holds at most \<open>n\<close> entries;
  and a \<^verbatim>\<open>set\<close> of a key that is not present, when the cache holds \<open>n\<close> entries,
  evicts exactly the first entry, whose key was touched (by \<^verbatim>\<open>get\<close> or \<^verbatim>\<open>set\<close>)
  strictly earlier than every other key of the cache, keeps all other entries, and
  appends the new one. With capacity 3, inserting a, b, c, d leaves b, c, d; inserting
  a, b, c, reading a and inserting d leaves c, a, d.
\<close>

theorem lru_bounded_least_recent_evicted:
  assumes "0 < n"
  shows "lru_size (runOps (newLRUCache n) ops) \<le> n
     \<and> (\<not> lru_has (runOps (newLRUCache n) ops) k \<and> lru_size (runOps (newLRUCache n) ops) = n \<longrightarrow>
          (\<exists>victim rest.
              keysOf (runOps (newLRUCache n) ops) = victim # rest
            \<and> (\<forall>k' \<in> set rest. lastTouch ops victim < lastTouch ops k')
            \<and> keysOf (lru_set (runOps (newLRUCache n) ops) k v) = rest @ [k]
            \<and> cache (lru_set (runOps (newLRUCache n) ops) k v)
                = tl (cache (runOps (newLRUCache n) ops)) @ [(k, v)]
            \<and> lru_size (lru_set (runOps (newLRUCache n) ops) k v) = n))
     \<and> keysOf (runOps (newLRUCache 3)
          [Set ''a'' (1::nat), Set ''b'' 2, Set ''c'' 3, Set ''d'' 4]) = [''b'', ''c'', ''d'']
     \<and> keysOf (runOps (newLRUCache 3)
          [Set ''a'' (1::nat), Set ''b'' 2, Set ''c'' 3, Get ''a'', Set ''d'' 4]) = [''c'', ''a'', ''d'']"
proof -
  note inv = recencyInv_run [OF assms, of ops]
  have size: "lru_size (runOps (newLRUCache n) ops) \<le> n"
    using inv by (simp add: recencyInv_def lru_size_def keysOf_def)
  have evict: "\<exists>victim rest.
              keysOf (runOps (newLRUCache n) ops) = victim # rest
            \<and> (\<forall>k' \<in> set rest. lastTouch ops victim < lastTouch ops k')
            \<and> keysOf (lru_set (runOps (newLRUCache n) ops) k v) = rest @ [k]
            \<and> cache (lru_set (runOps (newLRUCache n) ops) k v)
                = tl (cache (runOps (newLRUCache n) ops)) @ [(k, v)]
            \<and> lru_size (lru_set (runOps (newLRUCache n) ops) k v) = n"
    if h: "\<not> lru_has (runOps (newLRUCache n) ops) k" "lru_size (runOps (newLRUCache n) ops) = n"
  proof -
    from lru_evicts_least_recent [OF inv assms h, of v]
    obtain victim rest where e: "keysOf (runOps (newLRUCache n) ops) = victim # rest"
      "\<forall>k' \<in> set rest. lastTouch ops victim < lastTouch ops k'"
      "keysOf (lru_set (runOps (newLRUCache n) ops) k v) = rest @ [k]"
      "cache (lru_set (runOps (newLRUCache n) ops) k v)
         = tl (cache (runOps (newLRUCache n) ops)) @ [(k, v)]"
      by blast
    have "length (keysOf (lru_set (runOps (newLRUCache n) ops) k v))
            = length (keysOf (runOps (newLRUCache n) ops))"
      using e(1,3) by simp
    then have "lru_size (lru_set (runOps (newLRUCache n) ops) k v) = n"
      using h(2) by (simp add: lru_size_def keysOf_def)
    with e show ?thesis by blast
  qed
  have ex1: "keysOf (runOps (newLRUCache 3)
          [Set ''a'' (1::nat), Set ''b'' 2, Set ''c'' 3, Set ''d'' 4]) = [''b'', ''c'', ''d'']"
    by (simp add: lru_eval)
  have ex2: "keysOf (runOps (newLRUCache 3)
          [Set ''a'' (1::nat), Set ''b'' 2, Set ''c'' 3, Get ''a'', Set ''d'' 4]) = [''c'', ''a'', ''d'']"
    by (simp add: lru_eval)
  from size evict ex1 ex2 show ?thesis by blast
qed

text \<open>
  The theorem at capacity 3, after a, b, c were inserted and a was read: the cache is
  full, d is absent, and inserting d evicts b.
\<close>

theorem lru_bounded_least_recent_evicted_witness:
  "lru_size (runOps (newLRUCache 3) [Set ''a'' (1::nat), Set ''b'' 2, Set ''c'' 3, Get ''a'']) \<le> 3
   \<and> (\<exists>victim rest.
        keysOf (runOps (newLRUCache 3) [Set ''a'' (1::nat), Set ''b'' 2, Set ''c'' 3, Get ''a''])
          = victim # rest
        \<and> victim = ''b''
        \<and> keysOf (lru_set (runOps (newLRUCache 3) [Set ''a'' (1::nat), Set ''b'' 2, Set ''c'' 3, Get ''a''])
                    ''d'' 4) = rest @ [''d''])"
proof -
  let ?c = "runOps (newLRUCache 3) [Set ''a'' (1::nat), Set ''b'' 2, Set ''c'' 3, Get ''a'']"
  have pos: "0 < (3::nat)" by simp
  have h: "\<not> lru_has ?c ''d'' \<and> lru_size ?c = 3"
    by (simp add: lru_eval)
  have ks: "keysOf ?c = [''b'', ''c'', ''a'']"
    by (simp add: lru_eval)
  from lru_bounded_least_recent_evicted
         [OF pos, of "[Set ''a'' (1::nat), Set ''b'' 2, Set ''c'' 3, Get ''a'']" "''d''" 4] h
  obtain victim rest where e: "keysOf ?c = victim # rest"
      "keysOf (lru_set ?c ''d'' 4) = rest @ [''d'']"
    and sz: "lru_size ?c \<le> 3"
    by blast
  from e(1) ks have "victim = ''b''" by simp
  with e sz show ?thesis by blast
qed

text \<open>
  C4 as stated fails for the capacity 0, which the constructors of the cache and of
  \<^verbatim>\<open>ScopeTracker\<close> accept: the first \<^verbatim>\<open>set\<close> finds the cache at its capacity,
  finds no first key to evict, and inserts; the cache then holds one entry.
\<close>

theorem lru_capacity_zero_counterexample:
  "lru_size (runOps (newLRUCache 0) [Set ''a'' (1::nat)]) = 1
   \<and> \<not> lru_size (runOps (newLRUCache 0) [Set ''a'' (1::nat)]) \<le> 0"
  by (simp add: lru_eval)

section \<open>ChangeFilter: malformed ranges (C5)\<close>

text \<open>
  C5 says that \<^verbatim>\<open>classify\<close> returns normally for every document and every list of
  changes, also when a change starts on a line outside the document. For the one-line
  TypeScript document \<open>exOneLine\<close> and the change \<open>exBeyond\<close>, which starts on line 5,
  \<^verbatim>\<open>classify\<close> ends with the exception of \<^verbatim>\<open>lineAt\<close>: \<^verbatim>\<open>getOldText\<close> guards its
  read of the document, \<^verbatim>\<open>isInComment\<close> does not.
\<close>

theorem classify_throws_on_line_outside_document:
  "classify DEFAULT_CONFIG exOneLine exBeyond = Inl IllegalLine"
  by (simp add: classify_def exOneLine_def exBeyond_def classifySingleChange_def text_eval
        range_eval Let_def isInComment_def COMMENT_PATTERNS_def lineAt_def)

section \<open>EditBuffer: the idle timer (C6)\<close>

text \<open>
  C6. When the timer fires for a URI whose entry holds edits, the idle callback runs
  on a buffer from which that entry has been removed; so an \<^verbatim>\<open>addEdit\<close> made by the
  callback for the same URI leaves an entry that holds that one edit only, where the
  same \<^verbatim>\<open>addEdit\<close> before the timer fired would have appended to the entry. No exception
  leaves \<^verbatim>\<open>onTimerFired\<close> or the timer's function; an exception of the callback is
  printed to the console; and after a callback that throws, the URI has neither
  buffered edits nor a pending timer.
\<close>

theorem onTimerFired_removes_entry_before_callback:
  assumes "buffer eb u = Some entry" "edits entry \<noteq> []"
  shows "\<not> hasBufferedEdits (eb\<lparr>buffer := (buffer eb)(u := None)\<rparr>) u
     \<and> onTimerFired (Some cb) eb u =
         (case cb u (entryDocument entry) (edits entry) (eb\<lparr>buffer := (buffer eb)(u := None)\<rparr>) of
            (None, eb2) \<Rightarrow> (None, eb2)
          | (Some err, eb2) \<Rightarrow>
              (None, eb2\<lparr>console := console eb2 @ [(''[EditBuffer] Idle callback error:'', err)]\<rparr>))
     \<and> (uri doc = u \<longrightarrow>
          buffer (snd (onTimerFired (Some (reentrantAdd doc chs now)) eb u)) u
            = Some \<lparr>entryDocument = doc,
                    edits = [\<lparr>changes = chs, timestamp = now, version = docVersion doc\<rparr>]\<rparr>)
     \<and> (uri doc = u \<longrightarrow>
          buffer (addEdit eb doc chs now) u
            = Some \<lparr>entryDocument = doc,
                    edits = edits entry
                            @ [\<lparr>changes = chs, timestamp = now, version = docVersion doc\<rparr>]\<rparr>)
     \<and> fst (onTimerFired (Some cb) eb u) = None
     \<and> fst (timerElapsed (Some cb) eb u) = None
     \<and> \<not> hasBufferedEdits (snd (timerElapsed (Some (throwing e)) eb u)) u
     \<and> timers (snd (timerElapsed (Some (throwing e)) eb u)) u = None
     \<and> console (snd (timerElapsed (Some (throwing e)) eb u))
         = console eb @ [(''[EditBuffer] Idle callback error:'', e)]"
proof -
  have "\<not> hasBufferedEdits (eb\<lparr>buffer := (buffer eb)(u := None)\<rparr>) u"
    by (simp add: hasBufferedEdits_def)
  moreover note onTimerFired_runs_callback_after_removal [OF assms, of cb]
  moreover have "uri doc = u \<Longrightarrow>
          buffer (snd (onTimerFired (Some (reentrantAdd doc chs now)) eb u)) u
            = Some \<lparr>entryDocument = doc,
                    edits = [\<lparr>changes = chs, timestamp = now, version = docVersion doc\<rparr>]\<rparr>"
    using onTimerFired_reentrant [OF assms] by simp
  moreover have "uri doc = u \<Longrightarrow>
          buffer (addEdit eb doc chs now) u
            = Some \<lparr>entryDocument = doc,
                    edits = edits entry
                            @ [\<lparr>changes = chs, timestamp = now, version = docVersion doc\<rparr>]\<rparr>"
    using buffer_addEdit_existing [of eb doc entry chs now] assms(1) by auto
  moreover note onTimerFired_never_throws [of "Some cb" eb u]
    timerElapsed_never_throws [of "Some cb" eb u]
    timerElapsed_not_stuck [OF assms, of e]
  ultimately show ?thesis by blast
qed

text \<open>
  The theorem on a buffer that holds one edit of \<open>exDoc\<close>: an edit added by the callback
  starts a new entry, and a callback that throws leaves nothing buffered.
\<close>

theorem onTimerFired_removes_entry_before_callback_witness:
  "hasBufferedEdits exBuffer ''file:///a.ts''
   \<and> buffer (snd (onTimerFired (Some (reentrantAdd exDoc exBeyond 2000)) exBuffer ''file:///a.ts''))
        ''file:///a.ts''
       = Some \<lparr>entryDocument = exDoc,
               edits = [\<lparr>changes = exBeyond, timestamp = 2000, version = 1\<rparr>]\<rparr>
   \<and> \<not> hasBufferedEdits (snd (timerElapsed (Some (throwing TypeError)) exBuffer ''file:///a.ts''))
          ''file:///a.ts''
   \<and> console (snd (timerElapsed (Some (throwing TypeError)) exBuffer ''file:///a.ts''))
       = [(''[EditBuffer] Idle callback error:'', TypeError)]"
proof -
  let ?entry = "\<lparr>entryDocument = exDoc,
                 edits = [\<lparr>changes = exBatch, timestamp = 1000, version = 1\<rparr>]\<rparr>"
  have b: "buffer exBuffer ''file:///a.ts'' = Some ?entry"
    by (simp add: exBuffer_def newEditBuffer_def addEdit_def resetTimer_def cancelTimer_def
          exDoc_def Let_def)
  have e: "edits ?entry \<noteq> []" by simp
  have u: "uri exDoc = ''file:///a.ts''" "docVersion exDoc = 1" by (simp_all add: exDoc_def)
  have c: "console exBuffer = []"
    by (simp add: exBuffer_def newEditBuffer_def addEdit_def resetTimer_def cancelTimer_def Let_def)
  have h: "hasBufferedEdits exBuffer ''file:///a.ts''"
    using b by (simp add: hasBufferedEdits_def)
  from onTimerFired_removes_entry_before_callback
         [OF b e, of "throwing TypeError" exDoc exBeyond 2000 TypeError] u c h
  show ?thesis by simp
qed

section \<open>ScopeTracker: the descent (C7)\<close>

text \<open>
  C7. \<^verbatim>\<open>findEnclosingSymbolForRange\<close> computes the specified descent
  (\<open>specDescend\<close>): nodes are tried in order; a node whose range contains the query is
  answered by its children first, and by itself only when no child matches and its kind
  is one of function, method, class, constructor, module, namespace, interface, struct.
  So the symbol returned is a node of the outline, contains the query, is of a relevant
  kind, and none of its children matches; and when every node that contains the query
  is of another kind, the result is \<^verbatim>\<open>undefined\<close>.
\<close>

theorem findEnclosingSymbolForRange_is_specified_descent:
  "findEnclosingSymbolForRange syms q = specDescend syms q
   \<and> ((\<forall>s \<in> set (allSymbols syms). containsRange (range s) q \<longrightarrow> \<not> isRelevantSymbol s)
        \<longrightarrow> findEnclosingSymbolForRange syms q = None)
   \<and> (\<forall>s. findEnclosingSymbolForRange syms q = Some s \<longrightarrow>
          s \<in> set (allSymbols syms) \<and> containsRange (range s) q \<and> isRelevantSymbol s
          \<and> findEnclosingSymbolForRange (children s) q = None)"
  using find_eq_spec [of syms q] find_Some_props [of syms q] find_None_if_irrelevant [of syms q]
  by blast

text \<open>
  The theorem on the outline \<open>exOutline\<close>: a range inside the method's local variable
  resolves to the method, not to the class; a range inside the top-level constant
  resolves to nothing.
\<close>

theorem findEnclosingSymbolForRange_is_specified_descent_witness:
  "findEnclosingSymbolForRange exOutline (mkRange 3 9 3 10) = Some exMethod
   \<and> specDescend exOutline (mkRange 3 9 3 10) = Some exMethod
   \<and> isRelevantSymbol exMethod
   \<and> findEnclosingSymbolForRange (children exMethod) (mkRange 3 9 3 10) = None
   \<and> findEnclosingSymbolForRange exOutline (mkRange 12 5 12 6) = None
   \<and> specDescend exOutline (mkRange 12 5 12 6) = None"
proof -
  have a: "findEnclosingSymbolForRange exOutline (mkRange 3 9 3 10) = Some exMethod"
    by (simp add: exOutline_def exMethod_def isRelevantSymbol_def range_eval)
  have b: "\<forall>s \<in> set (allSymbols exOutline).
             containsRange (range s) (mkRange 12 5 12 6) \<longrightarrow> \<not> isRelevantSymbol s"
    by (simp add: exOutline_def exMethod_def isRelevantSymbol_def range_eval)
  from findEnclosingSymbolForRange_is_specified_descent [of exOutline "mkRange 3 9 3 10"]
       findEnclosingSymbolForRange_is_specified_descent [of exOutline "mkRange 12 5 12 6"] a b
  show ?thesis by metis
qed

section \<open>EditBuffer: the combined range (C8)\<close>

text \<open>
  C8. The edits are edits of documents: their change ranges are ranges of the editor
  (start not after end) and lie in a document, whose line numbers are all below
  \<^verbatim>\<open>Number.MAX_SAFE_INTEGER\<close>, the value the loop starts from. For such edits (it
  is enough that one change starts below that value) the start of the result of
  \<^verbatim>\<open>getCombinedRange\<close> is the least of the change starts and its end the greatest
  of the change ends, in the order by line and then by character; the result contains
  every change range, and every range that contains all change ranges contains it: it
  is the smallest range covering them. For the empty list, and for edits that hold no
  change at all, the result is the range (0,0)-(0,0).
\<close>

theorem getCombinedRange_smallest_cover:
  "getCombinedRange [] = mkRange 0 0 0 0
   \<and> (allChanges es = [] \<longrightarrow> getCombinedRange es = mkRange 0 0 0 0)
   \<and> ((\<forall>c \<in> set (allChanges es). valid_range (changeRange c))
       \<and> (\<exists>c \<in> set (allChanges es). line (start (changeRange c)) < MAX_SAFE_INTEGER) \<longrightarrow>
          pos_pair (start (getCombinedRange es)) = Min (set (changeStarts es))
        \<and> pos_pair (endp (getCombinedRange es)) = Max (set (changeEnds es))
        \<and> (\<forall>c \<in> set (allChanges es). containsRange (getCombinedRange es) (changeRange c))
        \<and> (\<forall>r. (\<forall>c \<in> set (allChanges es). containsRange r (changeRange c))
                \<longrightarrow> containsRange r (getCombinedRange es)))"
proof -
  have "getCombinedRange [] = mkRange 0 0 0 0"
    by (simp add: getCombinedRange_def)
  moreover have "allChanges es = [] \<longrightarrow> getCombinedRange es = mkRange 0 0 0 0"
    using getCombinedRange_none [of es] by blast
  moreover have "pos_pair (start (getCombinedRange es)) = Min (set (changeStarts es))
        \<and> pos_pair (endp (getCombinedRange es)) = Max (set (changeEnds es))
        \<and> (\<forall>c \<in> set (allChanges es). containsRange (getCombinedRange es) (changeRange c))
        \<and> (\<forall>r. (\<forall>c \<in> set (allChanges es). containsRange r (changeRange c))
                \<longrightarrow> containsRange r (getCombinedRange es))"
    if "\<forall>c \<in> set (allChanges es). valid_range (changeRange c)"
      and "\<exists>c \<in> set (allChanges es). line (start (changeRange c)) < MAX_SAFE_INTEGER"
    using getCombinedRange_pairs [OF that] getCombinedRange_covers [OF that]
      getCombinedRange_least [OF that]
    by blast
  ultimately show ?thesis by blast
qed

text \<open>
  The theorem on two edits, on line 3 and on line 1: the result spans from (1,4) to
  (3,7) and contains both changes.
\<close>

theorem getCombinedRange_smallest_cover_witness:
  "getCombinedRange exEdits = mkRange 1 4 3 7
   \<and> pos_pair (start (getCombinedRange exEdits)) = Min (set (changeStarts exEdits))
   \<and> pos_pair (endp (getCombinedRange exEdits)) = Max (set (changeEnds exEdits))
   \<and> containsRange (getCombinedRange exEdits) (changeRange (exChangeAt 3 2 3 7))
   \<and> containsRange (getCombinedRange exEdits) (changeRange (exChangeAt 1 4 1 9))
   \<and> getCombinedRange [] = mkRange 0 0 0 0"
proof -
  have v: "\<forall>c \<in> set (allChanges exEdits). valid_range (changeRange c)"
    by (simp add: exEdits_def exChangeAt_def allChanges_def range_eval)
  have b: "\<exists>c \<in> set (allChanges exEdits). line (start (changeRange c)) < MAX_SAFE_INTEGER"
    by (simp add: exEdits_def exChangeAt_def allChanges_def range_eval MAX_SAFE_INTEGER_def)
  have m: "allChanges exEdits = [exChangeAt 3 2 3 7, exChangeAt 1 4 1 9]"
    by (simp add: exEdits_def allChanges_def)
  have r: "getCombinedRange exEdits = mkRange 1 4 3 7"
    by (simp add: getCombinedRange_def exEdits_def exChangeAt_def allChanges_def extendRange_def
          MAX_SAFE_INTEGER_def range_eval)
  from getCombinedRange_smallest_cover [of exEdits] v b
  have "pos_pair (start (getCombinedRange exEdits)) = Min (set (changeStarts exEdits))
        \<and> pos_pair (endp (getCombinedRange exEdits)) = Max (set (changeEnds exEdits))
        \<and> (\<forall>c \<in> set (allChanges exEdits). containsRange (getCombinedRange exEdits) (changeRange c))
        \<and> getCombinedRange [] = mkRange 0 0 0 0"
    by blast
  with r m show ?thesis by simp
qed

section \<open>LRUCache: setting a key that is present (C9)\<close>

text \<open>
  C9. In a cache (a map: no key twice), \<^verbatim>\<open>set\<close> on a key that is present removes
  the key's entry and appends the key with the new value: the key reads the new value
  and stands last, in the most recently used position; every other key keeps its value
  and its place among the others; no key leaves the cache; the size is unchanged.
\<close>

theorem lru_set_existing_key:
  assumes d: "distinct (keysOf c)" and h: "lru_has c k"
  shows "cache (lru_set c k v) = filter (\<lambda>e. fst e \<noteq> k) (cache c) @ [(k, v)]
       \<and> map_get (cache (lru_set c k v)) k = Some v
       \<and> keysOf (lru_set c k v) = filter (\<lambda>x. x \<noteq> k) (keysOf c) @ [k]
       \<and> (\<forall>k'. k' \<noteq> k \<longrightarrow> map_get (cache (lru_set c k v)) k' = map_get (cache c) k')
       \<and> set (keysOf (lru_set c k v)) = set (keysOf c)
       \<and> lru_size (lru_set c k v) = lru_size c"
proof -
  have c: "cache (lru_set c k v) = map_delete (cache c) k @ [(k, v)]"
    using h by (simp add: cache_set lru_has_def)
  have k: "k \<in> set (keysOf c)" using h by (simp add: lru_has_def map_has_def keysOf_def)
  have ks: "keysOf (lru_set c k v) = filter (\<lambda>x. x \<noteq> k) (keysOf c) @ [k]"
    by (simp add: keysOf_def c map_fst_delete)
  have "length (keysOf (lru_set c k v)) = length (keysOf c)"
    using length_filter_distinct [OF d k] by (simp add: ks)
  then have sz: "lru_size (lru_set c k v) = lru_size c"
    by (simp add: lru_size_def keysOf_def)
  have st: "set (keysOf (lru_set c k v)) = set (keysOf c)"
    using k by (auto simp: ks)
  have g: "map_get (cache (lru_set c k v)) k = Some v"
    by (simp add: c map_get_def map_add_def map_of_delete_same)
  have o: "map_get (cache (lru_set c k v)) k' = map_get (cache c) k'" if "k' \<noteq> k" for k'
    using that by (simp add: c map_get_def map_add_def map_of_delete_other split: option.splits)
  from c ks sz st g o show ?thesis by (simp add: map_delete_def)
qed

text \<open>
  The theorem on a cache of capacity 3 holding a and b: setting a again leaves two
  entries, b first and a, with its new value, last.
\<close>

theorem lru_set_existing_key_witness:
  "cache (lru_set (runOps (newLRUCache 3) [Set ''a'' (1::nat), Set ''b'' 2]) ''a'' 10)
     = [(''b'', 2), (''a'', 10)]
   \<and> lru_size (lru_set (runOps (newLRUCache 3) [Set ''a'' (1::nat), Set ''b'' 2]) ''a'' 10) = 2
   \<and> map_get (cache (lru_set (runOps (newLRUCache 3) [Set ''a'' (1::nat), Set ''b'' 2]) ''a'' 10)) ''a''
     = Some 10"
proof -
  let ?c = "runOps (newLRUCache 3) [Set ''a'' (1::nat), Set ''b'' 2]"
  have c: "cache ?c = [(''a'', 1), (''b'', 2)]" by (simp add: lru_eval)
  have d: "distinct (keysOf ?c)" unfolding keysOf_def c by simp
  have h: "lru_has ?c ''a''" unfolding lru_has_def map_has_def c by simp
  have s: "lru_size ?c = 2" unfolding lru_size_def c by simp
  from lru_set_existing_key [OF d h, of 10] c s show ?thesis by (simp add: map_get_def)
qed

section \<open>SmartDiagnostics: what sentToLsp counts (C10)\<close>

text \<open>
  C10. When no client is set, or the client is not running, or the list of edits is
  empty, \<^verbatim>\<open>processEdits\<close> leaves the three counters as they are and sends no
  request. Otherwise \<^verbatim>\<open>sentToLsp\<close> is one more, and the other counters are
  unchanged, already when scope resolution starts, and still when the function has
  ended, whatever the outline provider and the remote service answer, a rejected
  request included; and exactly one request has been sent, for the document, with the
  resolved scope and the combined range of the edits. So \<^verbatim>\<open>sentToLsp\<close> counts the
  dispatch attempts.
\<close>

theorem processEdits_counts_dispatch_attempts:
  "((client sd = None \<or> (\<exists>cl. client sd = Some cl \<and> \<not> isRunning cl) \<or> es = []) \<longrightarrow>
       stats (processEdits sd u doc es provided answer now) = stats sd
     \<and> requests (processEdits sd u doc es provided answer now) = requests sd)
   \<and> (\<forall>cl. client sd = Some cl \<and> isRunning cl \<and> es \<noteq> [] \<longrightarrow>
         processEditsBegin sd es
           = Inr (sd\<lparr>stats := (stats sd)\<lparr>sentToLsp := sentToLsp (stats sd) + 1\<rparr>\<rparr>,
                  getCombinedRange es)
       \<and> stats (processEdits sd u doc es provided answer now)
           = (stats sd)\<lparr>sentToLsp := sentToLsp (stats sd) + 1\<rparr>
       \<and> stats (processEdits sd u doc es provided (Inl err) now)
           = (stats sd)\<lparr>sentToLsp := sentToLsp (stats sd) + 1\<rparr>
       \<and> requests (processEdits sd u doc es provided answer now)
           = requests sd @
               [\<lparr>reqUri = uri doc, reqContent = getFullText doc, reqVersion = docVersion doc,
                 reqScope = fst (getEnclosingScopeForRange (scopeTracker sd) doc
                                   (getCombinedRange es) provided),
                 reqAffectedRange = getCombinedRange es\<rparr>]
       \<and> length (requests (processEdits sd u doc es provided answer now))
           = Suc (length (requests sd))
       \<and> length (requests (processEdits sd u doc es provided (Inl err) now))
           = Suc (length (requests sd)))"
proof (intro conjI impI allI)
  assume "client sd = None \<or> (\<exists>cl. client sd = Some cl \<and> \<not> isRunning cl) \<or> es = []"
  then show "stats (processEdits sd u doc es provided answer now) = stats sd"
    by (rule processEdits_skipped)
next
  assume "client sd = None \<or> (\<exists>cl. client sd = Some cl \<and> \<not> isRunning cl) \<or> es = []"
  then show "requests (processEdits sd u doc es provided answer now) = requests sd"
    by (rule processEdits_skipped_requests)
next
  fix cl assume h: "client sd = Some cl \<and> isRunning cl \<and> es \<noteq> []"
  then have c: "client sd = Some cl" and r: "isRunning cl" and e: "es \<noteq> []" by simp_all
  show "processEditsBegin sd es
           = Inr (sd\<lparr>stats := (stats sd)\<lparr>sentToLsp := sentToLsp (stats sd) + 1\<rparr>\<rparr>,
                  getCombinedRange es)"
    by (rule processEdits_counted(1) [OF c r e])
  show "stats (processEdits sd u doc es provided answer now)
           = (stats sd)\<lparr>sentToLsp := sentToLsp (stats sd) + 1\<rparr>"
    by (rule processEdits_counted(2) [OF c r e])
  show "stats (processEdits sd u doc es provided (Inl err) now)
           = (stats sd)\<lparr>sentToLsp := sentToLsp (stats sd) + 1\<rparr>"
    by (rule processEdits_counted(2) [OF c r e])
  show "requests (processEdits sd u doc es provided answer now)
           = requests sd @
               [\<lparr>reqUri = uri doc, reqContent = getFullText doc, reqVersion = docVersion doc,
                 reqScope = fst (getEnclosingScopeForRange (scopeTracker sd) doc
                                   (getCombinedRange es) provided),
                 reqAffectedRange = getCombinedRange es\<rparr>]"
    by (rule processEdits_dispatches [OF c r e])
  show "length (requests (processEdits sd u doc es provided answer now))
           = Suc (length (requests sd))"
    by (simp add: processEdits_dispatches [OF c r e])
  show "length (requests (processEdits sd u doc es provided (Inl err) now))
           = Suc (length (requests sd))"
    by (simp add: processEdits_dispatches [OF c r e])
qed

text \<open>
  The theorem on an orchestrator with a running client whose request is rejected: the
  dispatch is counted and one request, with the combined range of the edits, has been
  sent; and on one without a client: nothing is counted and nothing is sent.
\<close>

theorem processEdits_counts_dispatch_attempts_witness:
  "stats (processEdits exRunning ''file:///a.ts'' exDoc exEdits (Inr None) (Inl (Thrown ''down'')) 5)
     = \<lparr>totalChanges = 0, filteredOut = 0, sentToLsp = 1\<rparr>
   \<and> stats (processEdits newSmartDiagnostics ''file:///a.ts'' exDoc exEdits (Inr None) (Inr ()) 5)
     = \<lparr>totalChanges = 0, filteredOut = 0, sentToLsp = 0\<rparr>
   \<and> map reqAffectedRange
       (requests (processEdits exRunning ''file:///a.ts'' exDoc exEdits (Inr None)
                    (Inl (Thrown ''down'')) 5))
     = [getCombinedRange exEdits]
   \<and> requests (processEdits newSmartDiagnostics ''file:///a.ts'' exDoc exEdits (Inr None) (Inr ()) 5)
     = []"
proof -
  have r: "client exRunning = Some \<lparr>isRunning = True\<rparr>" "isRunning \<lparr>isRunning = True\<rparr>"
    "stats exRunning = \<lparr>totalChanges = 0, filteredOut = 0, sentToLsp = 0\<rparr>"
    by (simp_all add: exRunning_def newSmartDiagnostics_def)
  have n: "client newSmartDiagnostics = None"
    "stats newSmartDiagnostics = \<lparr>totalChanges = 0, filteredOut = 0, sentToLsp = 0\<rparr>"
    "requests newSmartDiagnostics = []" "requests exRunning = []"
    by (simp_all add: newSmartDiagnostics_def exRunning_def)
  have e: "exEdits \<noteq> []" by (simp add: exEdits_def)
  from processEdits_counts_dispatch_attempts
         [of exRunning exEdits "''file:///a.ts''" exDoc "Inr None" "Inl (Thrown ''down'')" 5 "Thrown ''down''"]
       processEdits_counts_dispatch_attempts
         [of newSmartDiagnostics exEdits "''file:///a.ts''" exDoc "Inr None" "Inr ()" 5 "Thrown ''down''"]
       r n e
  show ?thesis by simp
qed

end
